theory Spec2Isabelle
  imports Main
begin

section \<open>Data model\<close>

text \<open>
  Package \<^verbatim>\<open>model\<close>. The account type is a string; the five constants name its values.
\<close>

definition AccountTypeSavings :: string where
  "AccountTypeSavings = ''savings''"

definition AccountTypeChecking :: string where
  "AccountTypeChecking = ''checking''"

definition AccountTypeCredit :: string where
  "AccountTypeCredit = ''credit''"

definition AccountTypeLoan :: string where
  "AccountTypeLoan = ''loan''"

definition AccountTypeInvestment :: string where
  "AccountTypeInvestment = ''investment''"

text \<open>
  The structs as records. A Go pointer field that may be nil is an \<open>option\<close>, and a
  \<^verbatim>\<open>time.Time\<close> is a number of seconds. The fields of \<^verbatim>\<open>Transaction\<close> carry the prefix
  \<open>Tx\<close>, since a field name is a constant of the theory; \<^verbatim>\<open>AccountDetails\<close> embeds an
  \<^verbatim>\<open>Account\<close>, here the field \<open>DetailsAccount\<close>.
\<close>

record Money =
  Amount :: string

record Account =
  ID :: string
  Name :: string
  Type :: string
  Balance :: Money
  AvailableBalance :: "Money option"
  AccountNumber :: "string option"
  BSB :: "string option"
  LastUpdated :: "nat option"

record Transaction =
  TxID :: string
  TxDate :: string
  Description :: string
  TxAmount :: Money
  TxBalance :: Money
  Category :: "string option"
  Merchant :: "string option"

record AccountDetails =
  DetailsAccount :: Account
  Transactions :: "Transaction list"
  RecentTransactionCount :: nat

text \<open>
  Errors are values. The three sentinels of \<^verbatim>\<open>service\<close> are compared by identity in the
  handler, so each is a constructor of its own. \<open>Errorf msg\<close> is a fresh error made by
  \<^verbatim>\<open>fmt.Errorf(msg)\<close>, \<open>Wrapped prefix e\<close> is \<^verbatim>\<open>fmt.Errorf(prefix + "%w", e)\<close>, and
  \<open>EngineError msg\<close> is an error that the browser automation engine returned.
\<close>

datatype err =
    ErrAccountNotFound
  | ErrServiceUnavailable
  | ErrAuthenticationFailed
  | EngineError string
  | Errorf string
  | Wrapped string err

section \<open>The account service\<close>

text \<open>
  The interface \<^verbatim>\<open>NABClient\<close>: two operations over a client state \<open>'c\<close>. The service
  keeps a log of the calls it makes to its client.
\<close>

record 'c NABClient =
  getAccounts :: "'c \<Rightarrow> (err + Account list) \<times> 'c"
  getAccountTransactions :: "string \<Rightarrow> 'c \<Rightarrow> (err + Transaction list) \<times> 'c"

datatype clientCall = CallGetAccounts | CallGetAccountTransactions string

record 'c svcState =
  client :: 'c
  calls :: "clientCall list"

definition callGetAccounts ::
  "'c NABClient \<Rightarrow> 'c svcState \<Rightarrow> (err + Account list) \<times> 'c svcState" where
  "callGetAccounts nab s =
     (let (r, c') = getAccounts nab (client s)
      in (r, s\<lparr>client := c', calls := calls s @ [CallGetAccounts]\<rparr>))"

definition callGetAccountTransactions ::
  "'c NABClient \<Rightarrow> string \<Rightarrow> 'c svcState \<Rightarrow> (err + Transaction list) \<times> 'c svcState" where
  "callGetAccountTransactions nab accountID s =
     (let (r, c') = getAccountTransactions nab accountID (client s)
      in (r, s\<lparr>client := c', calls := calls s @ [CallGetAccountTransactions accountID]\<rparr>))"

text \<open>\<^verbatim>\<open>GetAllAccounts\<close>: every listed account gets the time of the call.\<close>

definition GetAllAccounts ::
  "'c NABClient \<Rightarrow> nat \<Rightarrow> 'c svcState \<Rightarrow> (err + Account list) \<times> 'c svcState" where
  "GetAllAccounts nab now s =
     (case callGetAccounts nab s of
        (Inl e, s') \<Rightarrow> (Inl e, s')
      | (Inr accounts, s') \<Rightarrow>
          (Inr (map (\<lambda>a. a\<lparr>LastUpdated := Some now\<rparr>) accounts), s'))"

text \<open>The search loop of \<^verbatim>\<open>GetAccountDetails\<close>: the first account with the requested ID.\<close>

fun findTarget :: "Account list \<Rightarrow> string \<Rightarrow> Account option" where
  "findTarget [] accountID = None"
| "findTarget (account # rest) accountID =
     (if ID account = accountID then Some account else findTarget rest accountID)"

definition GetAccountDetails ::
  "'c NABClient \<Rightarrow> nat \<Rightarrow> string \<Rightarrow> 'c svcState \<Rightarrow> (err + AccountDetails) \<times> 'c svcState" where
  "GetAccountDetails nab now accountID s =
     (case callGetAccounts nab s of
        (Inl e, s1) \<Rightarrow> (Inl e, s1)
      | (Inr accounts, s1) \<Rightarrow>
          (case findTarget accounts accountID of
             None \<Rightarrow> (Inl ErrAccountNotFound, s1)
           | Some targetAccount \<Rightarrow>
               (case callGetAccountTransactions nab accountID s1 of
                  (Inl e, s2) \<Rightarrow> (Inl e, s2)
                | (Inr transactions, s2) \<Rightarrow>
                    (Inr \<lparr>DetailsAccount = targetAccount\<lparr>LastUpdated := Some now\<rparr>,
                          Transactions = transactions,
                          RecentTransactionCount = length transactions\<rparr>, s2))))"

section \<open>The mock client\<close>

definition mockAccounts :: "Account list" where
  "mockAccounts =
     [\<lparr>ID = ''12345678'', Name = ''Complete Access Account'', Type = AccountTypeSavings,
       Balance = \<lparr>Amount = ''2543.67''\<rparr>, AvailableBalance = Some \<lparr>Amount = ''2543.67''\<rparr>,
       AccountNumber = Some ''****5678'', BSB = Some ''084001'', LastUpdated = None\<rparr>,
      \<lparr>ID = ''87654321'', Name = ''NAB Classic Banking Account'', Type = AccountTypeChecking,
       Balance = \<lparr>Amount = ''847.23''\<rparr>, AvailableBalance = Some \<lparr>Amount = ''847.23''\<rparr>,
       AccountNumber = Some ''****4321'', BSB = Some ''084001'', LastUpdated = None\<rparr>,
      \<lparr>ID = ''11223344'', Name = ''NAB Reward Saver'', Type = AccountTypeSavings,
       Balance = \<lparr>Amount = ''15420.89''\<rparr>, AvailableBalance = Some \<lparr>Amount = ''15420.89''\<rparr>,
       AccountNumber = Some ''****3344'', BSB = Some ''084001'', LastUpdated = None\<rparr>]"

definition MockNABClient_GetAccounts :: "err + Account list" where
  "MockNABClient_GetAccounts = Inr mockAccounts"

text \<open>
  The mock transactions are dated one, two and three days before the call. The clock and
  its formatting belong to the Go library: \<open>dateStr d\<close> stands for
  \<^verbatim>\<open>time.Now().AddDate(0, 0, d).Format("2006-01-02")\<close>.
\<close>

definition MockNABClient_GetAccountTransactions ::
  "(int \<Rightarrow> string) \<Rightarrow> string \<Rightarrow> err + Transaction list" where
  "MockNABClient_GetAccountTransactions dateStr accountID =
     Inr [\<lparr>TxID = ''txn_001_'' @ accountID, TxDate = dateStr (- 1),
            Description = ''EFTPOS Purchase - COLES SUPERMARKET'',
            TxAmount = \<lparr>Amount = ''-85.67''\<rparr>, TxBalance = \<lparr>Amount = ''2543.67''\<rparr>,
            Category = Some ''Groceries'', Merchant = Some ''COLES SUPERMARKET''\<rparr>,
          \<lparr>TxID = ''txn_002_'' @ accountID, TxDate = dateStr (- 2),
            Description = ''Direct Credit - SALARY PAYMENT'',
            TxAmount = \<lparr>Amount = ''2500.00''\<rparr>, TxBalance = \<lparr>Amount = ''2629.34''\<rparr>,
            Category = Some ''Income'', Merchant = Some ''EMPLOYER PTY LTD''\<rparr>,
          \<lparr>TxID = ''txn_003_'' @ accountID, TxDate = dateStr (- 3),
            Description = ''ATM Withdrawal - NAB ATM'',
            TxAmount = \<lparr>Amount = ''-100.00''\<rparr>, TxBalance = \<lparr>Amount = ''129.34''\<rparr>,
            Category = Some ''Cash'', Merchant = Some ''NAB ATM''\<rparr>]"

text \<open>The mock as a \<^verbatim>\<open>NABClient\<close>: it has no state of its own.\<close>

definition NewMockNABClient :: "(int \<Rightarrow> string) \<Rightarrow> unit NABClient" where
  "NewMockNABClient dateStr =
     \<lparr>getAccounts = (\<lambda>c. (MockNABClient_GetAccounts, c)),
      getAccountTransactions = (\<lambda>accountID c. (MockNABClient_GetAccountTransactions dateStr accountID, c))\<rparr>"

section \<open>Strings\<close>

text \<open>
  A Go string is a sequence of bytes; \<open>string\<close> is a list of 8-bit characters. The
  functions of package \<^verbatim>\<open>strings\<close> that the sources call are written out.
\<close>

definition hasPrefix :: "string \<Rightarrow> string \<Rightarrow> bool" where
  "hasPrefix s pre = (take (length pre) s = pre)"

definition trimPrefix :: "string \<Rightarrow> string \<Rightarrow> string" where
  "trimPrefix s pre = (if hasPrefix s pre then drop (length pre) s else s)"

text \<open>\<^verbatim>\<open>strings.Contains(s, substr)\<close>: \<open>substr\<close> occurs at some position of \<open>s\<close>.\<close>

fun contains :: "string \<Rightarrow> string \<Rightarrow> bool" where
  "contains [] substr = (substr = [])"
| "contains (c # s) substr = (hasPrefix (c # s) substr \<or> contains s substr)"

text \<open>\<^verbatim>\<open>strings.ReplaceAll(s, ",", "")\<close>: every comma is deleted.\<close>

definition removeCommas :: "string \<Rightarrow> string" where
  "removeCommas s = filter (\<lambda>c. c \<noteq> CHR '','') s"

text \<open>
  \<^verbatim>\<open>strings.ToLower\<close>. A byte below 128 is a character of its own in UTF-8, and Go maps it
  to its ASCII lower case. The bytes from 128 on come in runs that Go decodes, maps through
  the Unicode case tables and encodes again; the tables belong to the Go library, so the
  map of such a run is the parameter \<open>L\<close> (its result may hold ASCII letters: the
  Kelvin sign becomes \<open>k\<close>).
\<close>

definition isASCII :: "char \<Rightarrow> bool" where
  "isASCII c = (\<not> digit7 c)"

definition lowerASCII :: "char \<Rightarrow> char" where
  "lowerASCII c =
     (case map_of (zip ''ABCDEFGHIJKLMNOPQRSTUVWXYZ'' ''abcdefghijklmnopqrstuvwxyz'') c of
        Some l \<Rightarrow> l
      | None \<Rightarrow> c)"

function toLower :: "(string \<Rightarrow> string) \<Rightarrow> string \<Rightarrow> string" where
  "toLower L [] = []"
| "toLower L (c # s) =
     (if isASCII c then lowerASCII c # toLower L s
      else L (takeWhile (\<lambda>x. \<not> isASCII x) (c # s))
           @ toLower L (dropWhile (\<lambda>x. \<not> isASCII x) (c # s)))"
  by pat_completeness auto
termination
  by (relation "measure (\<lambda>(L, s). length s)")
     (auto simp: less_Suc_eq_le length_dropWhile_le)

text \<open>\<^verbatim>\<open>fmt.Sprintf("%d", n)\<close> for a number that is not negative.\<close>

definition digitChar :: "nat \<Rightarrow> char" where
  "digitChar d = ''0123456789'' ! d"

function itoa :: "nat \<Rightarrow> string" where
  "itoa n = (if n < 10 then [digitChar n] else itoa (n div 10) @ [digitChar (n mod 10)])"
  by pat_completeness auto
termination
  by (relation "measure id") auto

declare itoa.simps [simp del]

section \<open>Field extraction\<close>

text \<open>
  The two currency patterns are compiled by Go's \<^verbatim>\<open>regexp\<close>, whose matches are
  leftmost-first. \<^verbatim>\<open>\d\<close> is an ASCII digit. The shared part \<^verbatim>\<open>[\d,]+\.[\d]{2}\<close>, anchored
  at the start of \<open>s\<close>: the repetition takes digits and commas, and the next character
  must be the dot, which is neither; so only the longest run can be followed by a match,
  and giving characters back never helps. The result is the matched text and the rest.
\<close>

definition isDigit :: "char \<Rightarrow> bool" where
  "isDigit c = (c \<in> set ''0123456789'')"

definition isAmountChar :: "char \<Rightarrow> bool" where
  "isAmountChar c = (isDigit c \<or> c = CHR '','')"

definition matchAmount :: "string \<Rightarrow> (string \<times> string) option" where
  "matchAmount s =
     (let run = takeWhile isAmountChar s in
      if run = [] then None
      else (case dropWhile isAmountChar s of
              dot # d1 # d2 # rest \<Rightarrow>
                if dot = CHR ''.'' \<and> isDigit d1 \<and> isDigit d2
                then Some (run @ [dot, d1, d2], rest) else None
            | _ \<Rightarrow> None))"

text \<open>The pattern \<^verbatim>\<open>\$[\d,]+\.[\d]{2}\<close> of the generic extractor, anchored at the start.\<close>

definition matchDollarAmount :: "string \<Rightarrow> (string \<times> string) option" where
  "matchDollarAmount s =
     (case s of
        [] \<Rightarrow> None
      | c # s' \<Rightarrow>
          if c = CHR ''$''
          then (case matchAmount s' of
                  Some (m, rest) \<Rightarrow> Some (c # m, rest)
                | None \<Rightarrow> None)
          else None)"

text \<open>
  \<^verbatim>\<open>FindAllString(pageSource, -1)\<close>: the matches from left to right, each search starting
  where the previous match ended (a match is never empty).
\<close>

function findAllDollarAmounts :: "string \<Rightarrow> string list" where
  "findAllDollarAmounts [] = []"
| "findAllDollarAmounts (c # s) =
     (case matchDollarAmount (c # s) of
        Some (m, rest) \<Rightarrow> m # findAllDollarAmounts rest
      | None \<Rightarrow> findAllDollarAmounts s)"
  by pat_completeness auto
termination
proof (relation "measure length")
  show "wf (measure length)" by simp
next
  fix c s x2 m rest
  assume a: "matchDollarAmount (c # s) = Some x2" and b: "(m, rest) = x2"
  from a b obtain m' where m': "matchAmount s = Some (m', rest)"
    by (auto simp: matchDollarAmount_def split: if_splits option.splits)
  then obtain d where "dropWhile isAmountChar s = d @ rest"
    by (auto simp: matchAmount_def Let_def split: if_splits list.splits)
  then have "length rest \<le> length (dropWhile isAmountChar s)"
    by simp
  also have "\<dots> \<le> length s"
    by (rule length_dropWhile_le)
  finally show "(rest, c # s) \<in> measure length"
    by simp
next
  fix c s
  show "(s, c # s) \<in> measure length" by simp
qed

text \<open>The loop of \<^verbatim>\<open>extractAccountsGeneric\<close> over the matches; \<open>i\<close> is the loop index.\<close>

fun accountsOfBalances :: "nat \<Rightarrow> string list \<Rightarrow> Account list" where
  "accountsOfBalances i [] = []"
| "accountsOfBalances i (balance # balances) =
     (let cleanBalance = removeCommas (trimPrefix balance ''$'') in
      \<lparr>ID = ''account_'' @ itoa (i + 1),
       Name = ''NAB Account '' @ itoa (i + 1),
       Type = AccountTypeSavings,
       Balance = \<lparr>Amount = cleanBalance\<rparr>,
       AvailableBalance = Some \<lparr>Amount = cleanBalance\<rparr>,
       AccountNumber = None, BSB = None, LastUpdated = None\<rparr>
      # accountsOfBalances (i + 1) balances)"

text \<open>\<^verbatim>\<open>extractAccountsGeneric\<close> once the page source has been read.\<close>

definition extractAccountsFromSource :: "string \<Rightarrow> Account list" where
  "extractAccountsFromSource pageSource = accountsOfBalances 0 (findAllDollarAmounts pageSource)"

text \<open>
  \<^verbatim>\<open>extractAccountType\<close>: four tests in the order of the source, on the lower-cased text.
\<close>

definition extractAccountType :: "(string \<Rightarrow> string) \<Rightarrow> string \<Rightarrow> string" where
  "extractAccountType L text =
     (let textLower = toLower L text in
      if contains textLower ''saver'' \<or> contains textLower ''savings'' then AccountTypeSavings
      else if contains textLower ''credit'' then AccountTypeCredit
      else if contains textLower ''loan'' then AccountTypeLoan
      else if contains textLower ''investment'' then AccountTypeInvestment
      else AccountTypeChecking)"

text \<open>
  The pattern \<^verbatim>\<open>\$?([\d,]+\.[\d]{2})\<close> of \<^verbatim>\<open>extractBalance\<close>, anchored at the start; the
  result is the text of group 1. The optional dollar sign is taken when it is there, and
  given back when nothing matches behind it.
\<close>

definition matchBalanceAt :: "string \<Rightarrow> string option" where
  "matchBalanceAt s =
     (case s of
        [] \<Rightarrow> None
      | c # s' \<Rightarrow>
          if c = CHR ''$''
          then (case matchAmount s' of
                  Some (m, rest) \<Rightarrow> Some m
                | None \<Rightarrow> map_option fst (matchAmount s))
          else map_option fst (matchAmount s))"

text \<open>\<^verbatim>\<open>FindStringSubmatch\<close>: the match at the leftmost position that has one.\<close>

fun findBalance :: "string \<Rightarrow> string option" where
  "findBalance [] = None"
| "findBalance (c # s) =
     (case matchBalanceAt (c # s) of
        Some m \<Rightarrow> Some m
      | None \<Rightarrow> findBalance s)"

definition extractBalance :: "string \<Rightarrow> string" where
  "extractBalance text =
     (case findBalance text of
        Some m \<Rightarrow> removeCommas m
      | None \<Rightarrow> [])"

text \<open>
  The classification as the specification words it: an ordered keyword table, searched
  in the lower-cased text; the first entry found decides, and without one the type is
  checking.
\<close>

definition keywordTable :: "(string \<times> string) list" where
  "keywordTable =
     [(''saver'', AccountTypeSavings), (''savings'', AccountTypeSavings),
      (''credit'', AccountTypeCredit), (''loan'', AccountTypeLoan),
      (''investment'', AccountTypeInvestment)]"

definition classifyByTable :: "(string \<Rightarrow> string) \<Rightarrow> string \<Rightarrow> string" where
  "classifyByTable L text =
     (case find (\<lambda>(kw, ty). contains (toLower L text) kw) keywordTable of
        Some (kw, ty) \<Rightarrow> ty
      | None \<Rightarrow> AccountTypeChecking)"

section \<open>The browser client\<close>

text \<open>
  The automation engine (\<^verbatim>\<open>chromedp\<close>) is not part of the repository. It is a parameter:
  a record of its operations over a browser state \<open>'b\<close>, each returning the new state
  and either no error (\<open>None\<close>) or the message of the engine's error. Nothing is assumed
  about them: an operation may time out, and the page may change between two calls. The
  lines that the client writes to its log are left out.
\<close>

record 'b engine =
  engNavigate :: "string \<Rightarrow> 'b \<Rightarrow> string option \<times> 'b"
  engWaitVisible :: "string \<Rightarrow> 'b \<Rightarrow> string option \<times> 'b"
  engClick :: "string \<Rightarrow> 'b \<Rightarrow> string option \<times> 'b"
  engSendKeys :: "string \<Rightarrow> string \<Rightarrow> 'b \<Rightarrow> string option \<times> 'b"
  engSleep :: "nat \<Rightarrow> 'b \<Rightarrow> string option \<times> 'b"
  engOuterHTML :: "string \<Rightarrow> 'b \<Rightarrow> (string + string) \<times> 'b"
  engCaptureScreenshot :: "'b \<Rightarrow> string option \<times> 'b"

text \<open>
  What the client does to the engine is recorded, call by call. A visibility probe is
  recorded with its outcome, and a call of \<^verbatim>\<open>takeScreenshot\<close> with its tag.
\<close>

datatype event =
    EvNavigate string
  | EvWaitVisible string bool
  | EvClick string
  | EvSendKeys string string
  | EvSleep nat
  | EvOuterHTML string
  | EvScreenshot string

text \<open>
  The state that the actions of one client share: the browser, the record of calls, and
  the variable \<^verbatim>\<open>accounts\<close> of \<^verbatim>\<open>GetAccounts\<close>, which \<^verbatim>\<open>scrapeAccounts\<close> writes through a
  pointer.
\<close>

record 'b world =
  browser :: 'b
  events :: "event list"
  accountsVar :: "Account list"

type_synonym 'b action = "'b world \<Rightarrow> err option \<times> 'b world"

definition Navigate :: "'b engine \<Rightarrow> string \<Rightarrow> 'b action" where
  "Navigate E url w =
     (let (r, b') = engNavigate E url (browser w)
      in (map_option EngineError r, w\<lparr>browser := b', events := events w @ [EvNavigate url]\<rparr>))"

definition WaitVisible :: "'b engine \<Rightarrow> string \<Rightarrow> 'b action" where
  "WaitVisible E sel w =
     (let (r, b') = engWaitVisible E sel (browser w)
      in (map_option EngineError r,
          w\<lparr>browser := b', events := events w @ [EvWaitVisible sel (r = None)]\<rparr>))"

definition Click :: "'b engine \<Rightarrow> string \<Rightarrow> 'b action" where
  "Click E sel w =
     (let (r, b') = engClick E sel (browser w)
      in (map_option EngineError r, w\<lparr>browser := b', events := events w @ [EvClick sel]\<rparr>))"

definition SendKeys :: "'b engine \<Rightarrow> string \<Rightarrow> string \<Rightarrow> 'b action" where
  "SendKeys E sel v w =
     (let (r, b') = engSendKeys E sel v (browser w)
      in (map_option EngineError r, w\<lparr>browser := b', events := events w @ [EvSendKeys sel v]\<rparr>))"

definition Sleep :: "'b engine \<Rightarrow> nat \<Rightarrow> 'b action" where
  "Sleep E secs w =
     (let (r, b') = engSleep E secs (browser w)
      in (map_option EngineError r, w\<lparr>browser := b', events := events w @ [EvSleep secs]\<rparr>))"

definition OuterHTML :: "'b engine \<Rightarrow> string \<Rightarrow> 'b world \<Rightarrow> (err + string) \<times> 'b world" where
  "OuterHTML E sel w =
     (let (r, b') = engOuterHTML E sel (browser w)
      in (map_sum EngineError id r, w\<lparr>browser := b', events := events w @ [EvOuterHTML sel]\<rparr>))"

text \<open>\<^verbatim>\<open>chromedp.Run\<close> and \<^verbatim>\<open>chromedp.Tasks\<close>: the actions in order, up to the first error.\<close>

fun runTasks :: "'b action list \<Rightarrow> 'b action" where
  "runTasks [] w = (None, w)"
| "runTasks (a # as) w =
     (case a w of
        (Some e, w') \<Rightarrow> (Some e, w')
      | (None, w') \<Rightarrow> runTasks as w')"

text \<open>
  \<^verbatim>\<open>takeScreenshot\<close> returns nothing: whether the capture worked only decides a log line.
\<close>

definition takeScreenshot :: "'b engine \<Rightarrow> string \<Rightarrow> 'b world \<Rightarrow> 'b world" where
  "takeScreenshot E suffix w =
     (let (r, b') = engCaptureScreenshot E (browser w)
      in w\<lparr>browser := b', events := events w @ [EvScreenshot suffix]\<rparr>)"

definition loginButtonSelectors :: "string list" where
  "loginButtonSelectors =
     [''button[class*=\"login\"]'',
      ''a[class*=\"login\"]'',
      ''[role=\"button\"][class*=\"login\"]'',
      ''button[title*=\"Login\"]'',
      ''a[title*=\"Login\"]'',
      ''.header button'',
      ''.navigation button'',
      ''button'',
      ''a[href*=\"login\"]'']"

definition internetBankingSelectors :: "string list" where
  "internetBankingSelectors =
     [''a[href*=\"internet-banking\"]'',
      ''a[href*=\"internetbanking\"]'',
      ''a[title*=\"Internet Banking\"]'',
      ''[role=\"menuitem\"][href*=\"banking\"]'',
      ''.dropdown a[href*=\"banking\"]'',
      ''.menu a[href*=\"banking\"]'',
      ''a[href*=\"personal/online-banking\"]'']"

definition loginSelectors :: "string list" where
  "loginSelectors =
     [''input[name=\"userid\"]'',
      ''input[id=\"userid\"]'',
      ''input[type=\"text\"][placeholder*=\"ID\"]'',
      ''input[type=\"text\"][placeholder*=\"username\"]'']"

definition passwordSelectors :: "string list" where
  "passwordSelectors =
     [''input[name=\"password\"]'',
      ''input[id=\"password\"]'',
      ''input[type=\"password\"]'']"

definition submitSelectors :: "string list" where
  "submitSelectors =
     [''input[type=\"submit\"]'',
      ''button[type=\"submit\"]'',
      ''button[class*=\"submit\"]'',
      ''input[value*=\"Log\"]'',
      ''button[class*=\"login\"]'']"

text \<open>
  The loop of \<^verbatim>\<open>clickLoginButton\<close> and of \<^verbatim>\<open>selectInternetBanking\<close>: probe each selector;
  at the first that is visible, click it and return what the click returns (\<open>Some\<close> of
  it). \<open>None\<close> is the end of the list, where the loop falls through.
\<close>

fun clickFirstVisible :: "'b engine \<Rightarrow> string list \<Rightarrow> 'b world \<Rightarrow> err option option \<times> 'b world" where
  "clickFirstVisible E [] w = (None, w)"
| "clickFirstVisible E (selector # selectors) w =
     (case WaitVisible E selector w of
        (None, w') \<Rightarrow> (let (r, w'') = Click E selector w' in (Some r, w''))
      | (Some e, w') \<Rightarrow> clickFirstVisible E selectors w')"

definition clickLoginButton :: "'b engine \<Rightarrow> 'b action" where
  "clickLoginButton E w =
     (case clickFirstVisible E loginButtonSelectors w of
        (Some r, w') \<Rightarrow> (r, w')
      | (None, w') \<Rightarrow>
          (Some (Errorf ''could not find login button''),
           takeScreenshot E ''login_button_not_found'' w'))"

definition selectInternetBanking :: "'b engine \<Rightarrow> 'b action" where
  "selectInternetBanking E w =
     (let (ignored, w0) = Sleep E 1 w in
      case clickFirstVisible E internetBankingSelectors w0 of
        (Some r, w') \<Rightarrow> (r, w')
      | (None, w') \<Rightarrow>
          (Some (Errorf ''could not find Internet Banking link in dropdown''),
           takeScreenshot E ''internet_banking_not_found'' w'))"

text \<open>
  The three loops of \<^verbatim>\<open>performLogin\<close>: the variable starts empty and takes the first
  selector whose probe succeeds, where the loop breaks.
\<close>

fun findVisible :: "'b engine \<Rightarrow> string list \<Rightarrow> 'b world \<Rightarrow> string \<times> 'b world" where
  "findVisible E [] w = ([], w)"
| "findVisible E (selector # selectors) w =
     (case WaitVisible E selector w of
        (None, w') \<Rightarrow> (selector, w')
      | (Some e, w') \<Rightarrow> findVisible E selectors w')"

record NABConfig =
  Username :: string
  Password :: string
  BaseURL :: string

definition performLogin :: "'b engine \<Rightarrow> NABConfig \<Rightarrow> 'b action" where
  "performLogin E cfg w =
     (let (usernameSelector, w1) = findVisible E loginSelectors w in
      if usernameSelector = [] then (Some (Errorf ''could not find username input field''), w1)
      else
        let (passwordSelector, w2) = findVisible E passwordSelectors w1 in
        if passwordSelector = [] then (Some (Errorf ''could not find password input field''), w2)
        else
          let (submitSelector, w3) = findVisible E submitSelectors w2 in
          if submitSelector = [] then (Some (Errorf ''could not find submit button''), w3)
          else runTasks [SendKeys E usernameSelector (Username cfg),
                         SendKeys E passwordSelector (Password cfg),
                         Click E submitSelector] w3)"

text \<open>
  \<^verbatim>\<open>extractAccountsGeneric\<close> ignores the error of reading the page; the variable
  \<^verbatim>\<open>pageSource\<close> is then still empty.
\<close>

definition extractAccountsGeneric :: "'b engine \<Rightarrow> 'b world \<Rightarrow> Account list \<times> 'b world" where
  "extractAccountsGeneric E w =
     (let (r, w') = OuterHTML E ''html'' w;
          pageSource = (case r of Inl e \<Rightarrow> [] | Inr html \<Rightarrow> html)
      in (extractAccountsFromSource pageSource, w'))"

definition scrapeAccounts :: "'b engine \<Rightarrow> 'b action" where
  "scrapeAccounts E w =
     (let (ignored, w1) = Sleep E 3 w;
          (foundAccounts, w2) = extractAccountsGeneric E w1
      in (None, w2\<lparr>accountsVar := foundAccounts\<rparr>))"

definition NABClient_GetAccounts ::
  "'b engine \<Rightarrow> NABConfig \<Rightarrow> 'b world \<Rightarrow> (err + Account list) \<times> 'b world" where
  "NABClient_GetAccounts E cfg w =
     (case runTasks
             [Navigate E (BaseURL cfg),
              WaitVisible E ''body'',
              clickLoginButton E,
              selectInternetBanking E,
              performLogin E cfg,
              WaitVisible E ''body'',
              Sleep E 3,
              scrapeAccounts E] (w\<lparr>accountsVar := []\<rparr>) of
        (Some e, w') \<Rightarrow>
          (Inl (Wrapped ''failed to scrape NAB accounts: '' e), takeScreenshot E ''error'' w')
      | (None, w') \<Rightarrow> (Inr (accountsVar w'), w'))"

definition NABClient_GetAccountTransactions :: "string \<Rightarrow> err + Transaction list" where
  "NABClient_GetAccountTransactions accountID = Inr []"

definition NewNABClient :: "'b engine \<Rightarrow> NABConfig \<Rightarrow> 'b world NABClient" where
  "NewNABClient E cfg =
     \<lparr>getAccounts = NABClient_GetAccounts E cfg,
      getAccountTransactions = (\<lambda>accountID w. (NABClient_GetAccountTransactions accountID, w))\<rparr>"

section \<open>The HTTP handler\<close>

text \<open>
  The handlers write a status code and a JSON body. Of an error body the model keeps the
  status and the error type; the \<^verbatim>\<open>switch err\<close> of \<^verbatim>\<open>GetAccount\<close> compares the error with
  the three sentinels.
\<close>

definition ErrorTypeAuthenticationFailed :: string where
  "ErrorTypeAuthenticationFailed = ''AUTHENTICATION_FAILED''"

definition ErrorTypeAccountNotFound :: string where
  "ErrorTypeAccountNotFound = ''ACCOUNT_NOT_FOUND''"

definition ErrorTypeServiceUnavailable :: string where
  "ErrorTypeServiceUnavailable = ''SERVICE_UNAVAILABLE''"

definition ErrorTypeInternalError :: string where
  "ErrorTypeInternalError = ''INTERNAL_ERROR''"

definition ErrorTypeInvalidRequest :: string where
  "ErrorTypeInvalidRequest = ''INVALID_REQUEST''"

datatype response =
    ErrorResponse nat string
  | AccountsResponse nat "Account list"
  | AccountDetailsResponse nat AccountDetails

definition handler_ListAccounts :: "'c NABClient \<Rightarrow> nat \<Rightarrow> 'c svcState \<Rightarrow> response \<times> 'c svcState" where
  "handler_ListAccounts nab now s =
     (case GetAllAccounts nab now s of
        (Inl e, s') \<Rightarrow> (ErrorResponse 500 ErrorTypeInternalError, s')
      | (Inr accounts, s') \<Rightarrow> (AccountsResponse 200 accounts, s'))"

definition handler_GetAccount ::
  "'c NABClient \<Rightarrow> nat \<Rightarrow> string \<Rightarrow> 'c svcState \<Rightarrow> response \<times> 'c svcState" where
  "handler_GetAccount nab now accountID s =
     (if accountID = [] then (ErrorResponse 400 ErrorTypeInvalidRequest, s)
      else
        (case GetAccountDetails nab now accountID s of
           (Inl e, s') \<Rightarrow>
             (if e = ErrAccountNotFound then ErrorResponse 404 ErrorTypeAccountNotFound
              else if e = ErrServiceUnavailable then ErrorResponse 503 ErrorTypeServiceUnavailable
              else if e = ErrAuthenticationFailed then ErrorResponse 401 ErrorTypeAuthenticationFailed
              else ErrorResponse 500 ErrorTypeInternalError, s')
         | (Inr accountDetails, s') \<Rightarrow> (AccountDetailsResponse 200 accountDetails, s')))"

section \<open>Engines to run the client on\<close>

text \<open>
  A page on which nothing but the body ever becomes visible, and an engine that cannot
  even load the site. Both are stateless.
\<close>

definition blankPageEngine :: "unit engine" where
  "blankPageEngine =
     \<lparr>engNavigate = (\<lambda>url b. (None, b)),
      engWaitVisible = (\<lambda>sel b. (if sel = ''body'' then None else Some ''context deadline exceeded'', b)),
      engClick = (\<lambda>sel b. (Some ''no such element'', b)),
      engSendKeys = (\<lambda>sel v b. (Some ''no such element'', b)),
      engSleep = (\<lambda>secs b. (None, b)),
      engOuterHTML = (\<lambda>sel b. (Inr ''<html><body></body></html>'', b)),
      engCaptureScreenshot = (\<lambda>b. (None, b))\<rparr>"

definition deadEngine :: "unit engine" where
  "deadEngine =
     \<lparr>engNavigate = (\<lambda>url b. (Some ''net::ERR_NAME_NOT_RESOLVED'', b)),
      engWaitVisible = (\<lambda>sel b. (Some ''context deadline exceeded'', b)),
      engClick = (\<lambda>sel b. (Some ''context deadline exceeded'', b)),
      engSendKeys = (\<lambda>sel v b. (Some ''context deadline exceeded'', b)),
      engSleep = (\<lambda>secs b. (Some ''context deadline exceeded'', b)),
      engOuterHTML = (\<lambda>sel b. (Inl ''context deadline exceeded'', b)),
      engCaptureScreenshot = (\<lambda>b. (Some ''context deadline exceeded'', b))\<rparr>"

text \<open>
  A site whose pages show every element the client asks for, except the first selector of
  each list, and whose dashboard shows two amounts.
\<close>

definition samplePage :: string where
  "samplePage = ''<html><body>Credit card $1,234.56 Home loan $7.89</body></html>''"

definition sampleEngine :: "unit engine" where
  "sampleEngine =
     \<lparr>engNavigate = (\<lambda>url b. (None, b)),
      engWaitVisible =
        (\<lambda>sel b. (if sel \<in> {hd loginButtonSelectors, hd internetBankingSelectors,
                                hd loginSelectors, hd passwordSelectors, hd submitSelectors}
                    then Some ''context deadline exceeded'' else None, b)),
      engClick = (\<lambda>sel b. (None, b)),
      engSendKeys = (\<lambda>sel v b. (None, b)),
      engSleep = (\<lambda>secs b. (None, b)),
      engOuterHTML = (\<lambda>sel b. (Inr samplePage, b)),
      engCaptureScreenshot = (\<lambda>b. (None, b))\<rparr>"

definition sampleConfig :: NABConfig where
  "sampleConfig = \<lparr>Username = ''user'', Password = ''secret'', BaseURL = ''https://www.nab.com.au''\<rparr>"

definition startWorld :: "unit world" where
  "startWorld = \<lparr>browser = (), events = [], accountsVar = []\<rparr>"

section \<open>Notions to state the properties with\<close>


fun screenshots :: "event list \<Rightarrow> string list" where
  "screenshots [] = []"
| "screenshots (EvScreenshot tag # evs) = tag # screenshots evs"
| "screenshots (e # evs) = screenshots evs"

fun probes :: "event list \<Rightarrow> (string \<times> bool) list" where
  "probes [] = []"
| "probes (EvWaitVisible sel ok # evs) = (sel, ok) # probes evs"
| "probes (e # evs) = probes evs"

text \<open>
  The contract of selector resolution as the specification words it, read on the record of
  probes: the candidates are probed in the order of the list; a probe that fails is
  followed by the probe of the next candidate; the first probe that succeeds is the last
  one, and its candidate is the match; when the list is exhausted there is no match.
\<close>

fun firstMatchTrace :: "string list \<Rightarrow> (string \<times> bool) list \<Rightarrow> string option \<Rightarrow> bool" where
  "firstMatchTrace [] ps r = (ps = [] \<and> r = None)"
| "firstMatchTrace (c # cs) [] r = False"
| "firstMatchTrace (c # cs) ((sel, ok) # ps) r =
     (sel = c \<and> (if ok then ps = [] \<and> r = Some c else firstMatchTrace cs ps r))"

definition probeEvent :: "string \<times> bool \<Rightarrow> event" where
  "probeEvent p = EvWaitVisible (fst p) (snd p)"

text \<open>
  The screenshots that a step takes by itself before it returns the error \<open>cause\<close>:
  only the two steps that click have a capture of their own.
\<close>

definition stepShots :: "err \<Rightarrow> string list" where
  "stepShots cause =
     (if cause = Errorf ''could not find login button'' then [''login_button_not_found'']
      else if cause = Errorf ''could not find Internet Banking link in dropdown''
      then [''internet_banking_not_found'']
      else [])"

text \<open>
  The errors that a step of the sequence can return: an error of the engine, or one of the
  five messages that name the role without a visible candidate.
\<close>

definition notFoundMessages :: "string list" where
  "notFoundMessages =
     [''could not find login button'',
      ''could not find Internet Banking link in dropdown'',
      ''could not find username input field'',
      ''could not find password input field'',
      ''could not find submit button'']"

fun isStepError :: "err \<Rightarrow> bool" where
  "isStepError (EngineError msg) = True"
| "isStepError (Errorf msg) = (msg \<in> set notFoundMessages)"
| "isStepError e = False"

text \<open>
  What the proofs show of every step of the sequence, from any state: it only adds to the
  record of calls; when it succeeds it has taken no screenshot, and when it fails its
  error is a step error and its screenshots are those of \<open>stepShots\<close>.
\<close>

definition stepSummary :: "'b action \<Rightarrow> bool" where
  "stepSummary a =
     (\<forall>w. \<exists>new. events (snd (a w)) = events w @ new \<and>
        (case fst (a w) of
           None \<Rightarrow> screenshots new = []
         | Some e \<Rightarrow> isStepError e \<and> screenshots new = stepShots e))"

text \<open>The shapes of a match of the dollar pattern and of a cleaned balance.\<close>

definition isNormalizedAmount :: "string \<Rightarrow> bool" where
  "isNormalizedAmount a =
     (case rev a of
        d2 # d1 # dot # ds \<Rightarrow> dot = CHR ''.'' \<and> isDigit d1 \<and> isDigit d2 \<and> list_all isDigit ds
      | _ \<Rightarrow> False)"

definition isDollarAmount :: "string \<Rightarrow> bool" where
  "isDollarAmount m =
     (case m of
        [] \<Rightarrow> False
      | c # body \<Rightarrow>
          c = CHR ''$'' \<and>
          (case rev body of
             d2 # d1 # dot # run \<Rightarrow>
               dot = CHR ''.'' \<and> isDigit d1 \<and> isDigit d2 \<and> run \<noteq> [] \<and> list_all isAmountChar run
           | _ \<Rightarrow> False))"

text \<open>\<^verbatim>\<open>strings.HasSuffix\<close>, used to state what the transaction identifiers end with.\<close>

definition hasSuffix :: "string \<Rightarrow> string \<Rightarrow> bool" where
  "hasSuffix s suf = (length suf \<le> length s \<and> drop (length s - length suf) s = suf)"

section \<open>Properties of the service and the mock client\<close>

lemma findTarget_None: "findTarget accounts accountID = None \<longleftrightarrow> accountID \<notin> ID ` set accounts"
  by (induction accounts) auto

text \<open>
  Claim C7. When the listing succeeds and the requested identifier is not the ID of any
  listed account, \<^verbatim>\<open>GetAccountDetails\<close> returns the sentinel \<open>ErrAccountNotFound\<close>, and the
  only call it has made to the client is the listing: no transaction fetch.
\<close>

theorem GetAccountDetails_absent_not_found:
  assumes "callGetAccounts nab s = (Inr accounts, s1)"
    and "accountID \<notin> ID ` set accounts"
  shows "GetAccountDetails nab now accountID s = (Inl ErrAccountNotFound, s1)
       \<and> calls (snd (GetAccountDetails nab now accountID s)) = calls s @ [CallGetAccounts]"
proof -
  from assms(2) have none: "findTarget accounts accountID = None"
    by (simp add: findTarget_None)
  have res: "GetAccountDetails nab now accountID s = (Inl ErrAccountNotFound, s1)"
    by (simp add: GetAccountDetails_def assms(1) none)
  have log: "calls s1 = calls s @ [CallGetAccounts]"
    using assms(1) by (auto simp: callGetAccounts_def Let_def split: prod.splits)
  from res log show ?thesis by simp
qed

theorem GetAccountDetails_absent_not_found_witness:
  "callGetAccounts (NewMockNABClient (\<lambda>d. ''2024-01-01'')) \<lparr>client = (), calls = []\<rparr>
     = (Inr mockAccounts, \<lparr>client = (), calls = [CallGetAccounts]\<rparr>)
   \<and> ''doesnotexist'' \<notin> ID ` set mockAccounts
   \<and> GetAccountDetails (NewMockNABClient (\<lambda>d. ''2024-01-01'')) 0 ''doesnotexist''
       \<lparr>client = (), calls = []\<rparr>
     = (Inl ErrAccountNotFound, \<lparr>client = (), calls = [CallGetAccounts]\<rparr>)"
proof -
  let ?nab = "NewMockNABClient (\<lambda>d. ''2024-01-01'')"
  let ?s = "\<lparr>client = (), calls = []\<rparr>"
  let ?s1 = "\<lparr>client = (), calls = [CallGetAccounts]\<rparr>"
  have a: "callGetAccounts ?nab ?s = (Inr mockAccounts, ?s1)"
    by (simp add: callGetAccounts_def NewMockNABClient_def MockNABClient_GetAccounts_def)
  have b: "''doesnotexist'' \<notin> ID ` set mockAccounts"
    by (simp add: mockAccounts_def)
  show ?thesis
    using a b GetAccountDetails_absent_not_found [OF a b, of 0] by simp
qed

text \<open>
  Claim C8. The mock client's listing, and the service's listing over the mock client,
  return exactly three accounts, with identifiers 12345678, 87654321, 11223344 and
  balances 2543.67, 847.23, 15420.89 in that order, whatever the state and the time.
\<close>

theorem mock_listAccounts_fixed:
  "MockNABClient_GetAccounts = Inr mockAccounts
   \<and> length mockAccounts = 3
   \<and> map ID mockAccounts = [''12345678'', ''87654321'', ''11223344'']
   \<and> map (Amount \<circ> Balance) mockAccounts = [''2543.67'', ''847.23'', ''15420.89'']
   \<and> (\<exists>accs. fst (GetAllAccounts (NewMockNABClient dateStr) now s) = Inr accs
        \<and> length accs = 3
        \<and> map ID accs = [''12345678'', ''87654321'', ''11223344'']
        \<and> map (Amount \<circ> Balance) accs = [''2543.67'', ''847.23'', ''15420.89''])"
  by (simp add: MockNABClient_GetAccounts_def mockAccounts_def GetAllAccounts_def
      callGetAccounts_def NewMockNABClient_def)

text \<open>
  Claim C9. For identifier 87654321 the service over the mock client returns the account
  with that ID and three transactions, and the identifier of each transaction ends with
  \<open>_87654321\<close>.
\<close>

theorem mock_details_87654321:
  "\<exists>d. fst (GetAccountDetails (NewMockNABClient dateStr) now ''87654321'' s) = Inr d
       \<and> ID (DetailsAccount d) = ''87654321''
       \<and> length (Transactions d) = 3
       \<and> RecentTransactionCount d = 3
       \<and> list_all (\<lambda>t. hasSuffix (TxID t) ''_87654321'') (Transactions d)"
  by (simp add: GetAccountDetails_def callGetAccounts_def callGetAccountTransactions_def
      NewMockNABClient_def MockNABClient_GetAccounts_def mockAccounts_def
      MockNABClient_GetAccountTransactions_def hasSuffix_def)

section \<open>Properties of the generic extractor\<close>

lemma isDigit_not_comma: "isDigit c \<Longrightarrow> c \<noteq> CHR '',''"
  by (auto simp: isDigit_def)

lemma isDigit_not_dollar: "isDigit c \<Longrightarrow> c \<noteq> CHR ''$''"
  by (auto simp: isDigit_def)

lemma matchAmount_SomeD:
  assumes "matchAmount s = Some (m, rest)"
  shows "\<exists>d1 d2. takeWhile isAmountChar s \<noteq> []
           \<and> dropWhile isAmountChar s = CHR ''.'' # d1 # d2 # rest
           \<and> isDigit d1 \<and> isDigit d2
           \<and> m = takeWhile isAmountChar s @ [CHR ''.'', d1, d2]"
proof (cases "dropWhile isAmountChar s")
  case Nil
  from assms show ?thesis unfolding matchAmount_def Let_def Nil by (simp split: if_splits)
next
  case c1: (Cons dot r1)
  show ?thesis
  proof (cases r1)
    case Nil
    from assms show ?thesis unfolding matchAmount_def Let_def c1 Nil by (simp split: if_splits)
  next
    case c2: (Cons d1 r2)
    show ?thesis
    proof (cases r2)
      case Nil
      from assms show ?thesis unfolding matchAmount_def Let_def c1 c2 Nil by (simp split: if_splits)
    next
      case c3: (Cons d2 r3)
      from assms show ?thesis unfolding matchAmount_def Let_def c1 c2 c3
        by (simp split: if_splits)
    qed
  qed
qed

lemma takeWhile_list_all: "list_all P (takeWhile P xs)"
  by (induction xs) auto

lemma matchAmount_shape:
  assumes "matchAmount s = Some (m, rest)"
  shows "\<exists>run d1 d2. m = run @ [CHR ''.'', d1, d2] \<and> run \<noteq> [] \<and> list_all isAmountChar run
           \<and> isDigit d1 \<and> isDigit d2 \<and> s = m @ rest"
proof -
  let ?run = "takeWhile isAmountChar s"
  from matchAmount_SomeD [OF assms] obtain d1 d2 where
    ne: "?run \<noteq> []" and dw: "dropWhile isAmountChar s = CHR ''.'' # d1 # d2 # rest"
    and d: "isDigit d1" "isDigit d2" and m: "m = ?run @ [CHR ''.'', d1, d2]"
    by blast
  have "s = ?run @ dropWhile isAmountChar s" by simp
  then have "s = ?run @ CHR ''.'' # d1 # d2 # rest" unfolding dw .
  with m have "s = m @ rest" by simp
  with ne d m takeWhile_list_all [of isAmountChar s] show ?thesis by blast
qed

lemma matchDollarAmount_SomeD:
  assumes "matchDollarAmount s = Some (m, rest)"
  shows "\<exists>s' m'. s = CHR ''$'' # s' \<and> matchAmount s' = Some (m', rest) \<and> m = CHR ''$'' # m'"
proof (cases s)
  case Nil
  with assms show ?thesis by (simp add: matchDollarAmount_def)
next
  case (Cons c s')
  show ?thesis
  proof (cases "matchAmount s'")
    case None
    with assms Cons show ?thesis by (simp add: matchDollarAmount_def split: if_splits)
  next
    case (Some p)
    with assms Cons show ?thesis
      by (cases p) (simp add: matchDollarAmount_def split: if_splits)
  qed
qed

lemma matchDollarAmount_shape:
  assumes "matchDollarAmount s = Some (m, rest)"
  shows "\<exists>run d1 d2. m = CHR ''$'' # run @ [CHR ''.'', d1, d2] \<and> run \<noteq> [] \<and> list_all isAmountChar run
           \<and> isDigit d1 \<and> isDigit d2 \<and> s = m @ rest"
proof -
  from matchDollarAmount_SomeD [OF assms] obtain s' m' where
    s: "s = CHR ''$'' # s'" and m': "matchAmount s' = Some (m', rest)" and m: "m = CHR ''$'' # m'"
    by blast
  from matchAmount_shape [OF m'] obtain run d1 d2 where
    "m' = run @ [CHR ''.'', d1, d2]" "run \<noteq> []" "list_all isAmountChar run"
    "isDigit d1" "isDigit d2" "s' = m' @ rest"
    by blast
  with s m show ?thesis by simp
qed

lemma shape_isDollarAmount:
  "run \<noteq> [] \<Longrightarrow> list_all isAmountChar run \<Longrightarrow> isDigit d1 \<Longrightarrow> isDigit d2 \<Longrightarrow>
   isDollarAmount (CHR ''$'' # run @ [CHR ''.'', d1, d2])"
  by (simp add: isDollarAmount_def)

lemma matchDollarAmount_isDollarAmount:
  assumes "matchDollarAmount s = Some (m, rest)"
  shows "isDollarAmount m"
proof -
  from matchDollarAmount_shape [OF assms] obtain run d1 d2 where
    "m = CHR ''$'' # run @ [CHR ''.'', d1, d2]" "run \<noteq> []" "list_all isAmountChar run"
    "isDigit d1" "isDigit d2"
    by blast
  then show ?thesis by (simp add: shape_isDollarAmount)
qed

lemma findAll_isDollarAmount: "list_all isDollarAmount (findAllDollarAmounts s)"
proof (induction s rule: findAllDollarAmounts.induct)
  case 1
  show ?case by simp
next
  case (2 c s)
  show ?case
  proof (cases "matchDollarAmount (c # s)")
    case None
    with 2(1) show ?thesis by simp
  next
    case (Some p)
    obtain m rest where p: "p = (m, rest)" by (cases p)
    from Some p have mr: "matchDollarAmount (c # s) = Some (m, rest)" by simp
    have "list_all isDollarAmount (findAllDollarAmounts rest)"
      using 2(2) [OF Some p [symmetric]] .
    with matchDollarAmount_isDollarAmount [OF mr] mr show ?thesis by simp
  qed
qed

lemma removeCommas_all_digits: "list_all isAmountChar run \<Longrightarrow> list_all isDigit (removeCommas run)"
  by (induction run) (auto simp: removeCommas_def isAmountChar_def)

lemma clean_dollar_amount:
  assumes "isDigit d1" "isDigit d2"
  shows "removeCommas (trimPrefix (CHR ''$'' # run @ [CHR ''.'', d1, d2]) ''$'')
           = removeCommas run @ [CHR ''.'', d1, d2]"
  using assms isDigit_not_comma [of d1] isDigit_not_comma [of d2]
  by (simp add: removeCommas_def trimPrefix_def hasPrefix_def)

lemma isNormalizedAmount_shape:
  "list_all isDigit ds \<Longrightarrow> isDigit d1 \<Longrightarrow> isDigit d2 \<Longrightarrow>
   isNormalizedAmount (ds @ [CHR ''.'', d1, d2])"
  by (simp add: isNormalizedAmount_def)

lemma isDollarAmount_clean:
  assumes "isDollarAmount m"
  shows "isNormalizedAmount (removeCommas (trimPrefix m ''$''))"
    and "removeCommas (trimPrefix m ''$'') = removeCommas (tl m)"
proof -
  from assms obtain body where m: "m = CHR ''$'' # body"
    by (cases m) (auto simp: isDollarAmount_def)
  from assms m obtain d2 d1 run where rb: "rev body = d2 # d1 # CHR ''.'' # run"
    and d: "isDigit d1" "isDigit d2" and run: "list_all isAmountChar run"
    by (auto simp: isDollarAmount_def split: list.splits)
  from rb have "rev (rev body) = rev (d2 # d1 # CHR ''.'' # run)" by simp
  then have body: "body = rev run @ [CHR ''.'', d1, d2]" by simp
  from run have run': "list_all isAmountChar (rev run)" by (simp add: list_all_iff)
  have eq: "removeCommas (trimPrefix m ''$'') = removeCommas (rev run) @ [CHR ''.'', d1, d2]"
    unfolding m body using clean_dollar_amount [OF d] .
  show "isNormalizedAmount (removeCommas (trimPrefix m ''$''))"
    unfolding eq using removeCommas_all_digits [OF run'] d by (rule isNormalizedAmount_shape)
  show "removeCommas (trimPrefix m ''$'') = removeCommas (tl m)"
    by (simp add: m trimPrefix_def hasPrefix_def)
qed

lemma accountsOfBalances_length: "length (accountsOfBalances i bs) = length bs"
  by (induction bs arbitrary: i) (simp_all add: Let_def)

lemma accountsOfBalances_nth:
  "k < length bs \<Longrightarrow>
   accountsOfBalances i bs ! k =
     \<lparr>ID = ''account_'' @ itoa (i + k + 1),
      Name = ''NAB Account '' @ itoa (i + k + 1),
      Type = AccountTypeSavings,
      Balance = \<lparr>Amount = removeCommas (trimPrefix (bs ! k) ''$'')\<rparr>,
      AvailableBalance = Some \<lparr>Amount = removeCommas (trimPrefix (bs ! k) ''$'')\<rparr>,
      AccountNumber = None, BSB = None, LastUpdated = None\<rparr>"
proof (induction bs arbitrary: i k)
  case Nil
  then show ?case by simp
next
  case (Cons b bs)
  show ?case
  proof (cases k)
    case 0
    then show ?thesis by (simp add: Let_def)
  next
    case (Suc j)
    with Cons.prems have "j < length bs" by simp
    from Cons.IH [OF this, of "i + 1"] Suc show ?thesis
      by (simp add: Let_def)
  qed
qed

lemma nth_list_all: "list_all P xs \<Longrightarrow> i < length xs \<Longrightarrow> P (xs ! i)"
  by (simp add: list_all_length)

text \<open>
  Claim C4. The generic extractor returns one account for each match of the dollar
  pattern, in the order of the matches: the account at position \<open>i\<close> (from 0) has the
  identifier \<open>account_\<close> followed by \<open>i + 1\<close>, and its balance is the match without its
  dollar sign and without commas, which is a run of digits, a dot and two digits. Every
  match has the shape of the pattern. Without a match the result is the empty list; the
  extractor has no error to return, and a page that cannot be read counts as empty.
\<close>

theorem extractAccountsFromSource_one_per_match:
  "length (extractAccountsFromSource page) = length (findAllDollarAmounts page)
   \<and> list_all isDollarAmount (findAllDollarAmounts page)
   \<and> (\<forall>i < length (findAllDollarAmounts page).
         ID (extractAccountsFromSource page ! i) = ''account_'' @ itoa (i + 1)
       \<and> Amount (Balance (extractAccountsFromSource page ! i))
           = removeCommas (tl (findAllDollarAmounts page ! i))
       \<and> isNormalizedAmount (Amount (Balance (extractAccountsFromSource page ! i))))
   \<and> (findAllDollarAmounts page = [] \<longrightarrow> extractAccountsFromSource page = [])
   \<and> (\<forall>E w. fst (extractAccountsGeneric E w)
          = extractAccountsFromSource
              (case fst (OuterHTML E ''html'' w) of Inl e \<Rightarrow> [] | Inr html \<Rightarrow> html))"
proof (intro conjI allI impI)
  show "length (extractAccountsFromSource page) = length (findAllDollarAmounts page)"
    by (simp add: extractAccountsFromSource_def accountsOfBalances_length)
  show "list_all isDollarAmount (findAllDollarAmounts page)"
    by (rule findAll_isDollarAmount)
  show "extractAccountsFromSource page = []" if "findAllDollarAmounts page = []"
    using that by (simp add: extractAccountsFromSource_def)
  show "fst (extractAccountsGeneric E w)
          = extractAccountsFromSource
              (case fst (OuterHTML E ''html'' w) of Inl e \<Rightarrow> [] | Inr html \<Rightarrow> html)"
    for E :: "'a engine" and w
    by (simp add: extractAccountsGeneric_def Let_def split: prod.splits)
next
  fix i assume i: "i < length (findAllDollarAmounts page)"
  let ?m = "findAllDollarAmounts page ! i"
  have nth: "extractAccountsFromSource page ! i =
     \<lparr>ID = ''account_'' @ itoa (i + 1),
      Name = ''NAB Account '' @ itoa (i + 1),
      Type = AccountTypeSavings,
      Balance = \<lparr>Amount = removeCommas (trimPrefix ?m ''$'')\<rparr>,
      AvailableBalance = Some \<lparr>Amount = removeCommas (trimPrefix ?m ''$'')\<rparr>,
      AccountNumber = None, BSB = None, LastUpdated = None\<rparr>"
    using accountsOfBalances_nth [OF i, of 0] by (simp add: extractAccountsFromSource_def)
  have m: "isDollarAmount ?m"
    using findAll_isDollarAmount i by (rule nth_list_all)
  show "ID (extractAccountsFromSource page ! i) = ''account_'' @ itoa (i + 1)"
    by (simp add: nth)
  show "Amount (Balance (extractAccountsFromSource page ! i)) = removeCommas (tl ?m)"
    using isDollarAmount_clean(2) [OF m] by (simp add: nth)
  show "isNormalizedAmount (Amount (Balance (extractAccountsFromSource page ! i)))"
    using isDollarAmount_clean(1) [OF m] by (simp add: nth)
qed

lemma samplePage_matches: "findAllDollarAmounts samplePage = [''$1,234.56'', ''$7.89'']"
  by (simp add: samplePage_def matchDollarAmount_def matchAmount_def isAmountChar_def isDigit_def)

theorem extractAccountsFromSource_one_per_match_witness:
  "length (extractAccountsFromSource samplePage) = 2
   \<and> ID (extractAccountsFromSource samplePage ! 1) = ''account_2''
   \<and> Amount (Balance (extractAccountsFromSource samplePage ! 1)) = ''7.89''
   \<and> isNormalizedAmount (Amount (Balance (extractAccountsFromSource samplePage ! 1)))
   \<and> extractAccountsFromSource ''no amount here'' = []"
proof -
  note T = extractAccountsFromSource_one_per_match [of samplePage]
  note N = extractAccountsFromSource_one_per_match [of "''no amount here''"]
  have one: "(1::nat) < length (findAllDollarAmounts samplePage)"
    by (simp add: samplePage_matches)
  have none: "findAllDollarAmounts ''no amount here'' = []"
    by (simp add: matchDollarAmount_def)
  have two: "itoa (1 + 1) = ''2''"
    by (simp add: itoa.simps digitChar_def)
  from T have len: "length (extractAccountsFromSource samplePage) = length (findAllDollarAmounts samplePage)"
    by blast
  from T one have at1:
    "ID (extractAccountsFromSource samplePage ! 1) = ''account_'' @ itoa (1 + 1)"
    "Amount (Balance (extractAccountsFromSource samplePage ! 1))
       = removeCommas (tl (findAllDollarAmounts samplePage ! 1))"
    "isNormalizedAmount (Amount (Balance (extractAccountsFromSource samplePage ! 1)))"
    by blast+
  from N none have empty: "extractAccountsFromSource ''no amount here'' = []"
    by blast
  have clean: "removeCommas (tl (findAllDollarAmounts samplePage ! 1)) = ''7.89''"
    by (simp add: samplePage_matches removeCommas_def)
  from len have "length (extractAccountsFromSource samplePage) = 2"
    by (simp add: samplePage_matches)
  moreover from at1(1) have "ID (extractAccountsFromSource samplePage ! 1) = ''account_2''"
    unfolding two by simp
  moreover from at1(2) have "Amount (Balance (extractAccountsFromSource samplePage ! 1)) = ''7.89''"
    unfolding clean .
  ultimately show ?thesis using at1(3) empty by blast
qed

text \<open>
  Claim C10. Whatever the page holds, every account of the generic extractor has the type
  savings, the name \<open>NAB Account\<close> followed by its position counted from 1, an available
  balance equal to its balance, and neither an account number nor a BSB; and
  \<^verbatim>\<open>scrapeAccounts\<close> never fails and stores a result of that extractor. (On the sample
  page the classifier by keywords would answer credit; the extractor does not ask it.)
\<close>

theorem generic_extractor_fixed_fields:
  "(\<forall>i < length (extractAccountsFromSource page).
       Type (extractAccountsFromSource page ! i) = AccountTypeSavings
     \<and> Name (extractAccountsFromSource page ! i) = ''NAB Account '' @ itoa (i + 1)
     \<and> AvailableBalance (extractAccountsFromSource page ! i)
         = Some (Balance (extractAccountsFromSource page ! i))
     \<and> AccountNumber (extractAccountsFromSource page ! i) = None
     \<and> BSB (extractAccountsFromSource page ! i) = None)
   \<and> (\<forall>E w. fst (scrapeAccounts E w) = None
         \<and> (\<exists>src. accountsVar (snd (scrapeAccounts E w)) = extractAccountsFromSource src))"
proof (intro conjI allI impI)
  fix i assume "i < length (extractAccountsFromSource page)"
  then have i: "i < length (findAllDollarAmounts page)"
    by (simp add: extractAccountsFromSource_def accountsOfBalances_length)
  let ?m = "findAllDollarAmounts page ! i"
  have nth: "extractAccountsFromSource page ! i =
     \<lparr>ID = ''account_'' @ itoa (i + 1),
      Name = ''NAB Account '' @ itoa (i + 1),
      Type = AccountTypeSavings,
      Balance = \<lparr>Amount = removeCommas (trimPrefix ?m ''$'')\<rparr>,
      AvailableBalance = Some \<lparr>Amount = removeCommas (trimPrefix ?m ''$'')\<rparr>,
      AccountNumber = None, BSB = None, LastUpdated = None\<rparr>"
    using accountsOfBalances_nth [OF i, of 0] by (simp add: extractAccountsFromSource_def)
  show "Type (extractAccountsFromSource page ! i) = AccountTypeSavings"
    by (simp add: nth)
  show "Name (extractAccountsFromSource page ! i) = ''NAB Account '' @ itoa (i + 1)"
    by (simp add: nth)
  show "AvailableBalance (extractAccountsFromSource page ! i)
         = Some (Balance (extractAccountsFromSource page ! i))"
    by (simp add: nth)
  show "AccountNumber (extractAccountsFromSource page ! i) = None"
    by (simp add: nth)
  show "BSB (extractAccountsFromSource page ! i) = None"
    by (simp add: nth)
next
  fix E :: "'b engine" and w
  show "fst (scrapeAccounts E w) = None"
    by (simp add: scrapeAccounts_def Let_def split: prod.splits)
  show "\<exists>src. accountsVar (snd (scrapeAccounts E w)) = extractAccountsFromSource src"
    by (auto simp: scrapeAccounts_def extractAccountsGeneric_def Let_def split: prod.splits)
qed

theorem generic_extractor_fixed_fields_witness:
  "Type (extractAccountsFromSource samplePage ! 0) = ''savings''
   \<and> Name (extractAccountsFromSource samplePage ! 0) = ''NAB Account 1''
   \<and> AvailableBalance (extractAccountsFromSource samplePage ! 0)
       = Some (Balance (extractAccountsFromSource samplePage ! 0))
   \<and> AccountNumber (extractAccountsFromSource samplePage ! 0) = None
   \<and> BSB (extractAccountsFromSource samplePage ! 0) = None
   \<and> accountsVar (snd (scrapeAccounts sampleEngine startWorld)) = extractAccountsFromSource samplePage
   \<and> extractAccountType id samplePage = ''credit''"
proof -
  note T = generic_extractor_fixed_fields [of samplePage]
  have classified: "extractAccountType id samplePage = ''credit''"
    by (simp add: extractAccountType_def samplePage_def isASCII_def lowerASCII_def hasPrefix_def
        AccountTypeCredit_def)
  have "length (extractAccountsFromSource samplePage) = length (findAllDollarAmounts samplePage)"
    unfolding extractAccountsFromSource_def by (rule accountsOfBalances_length)
  then have zero: "0 < length (extractAccountsFromSource samplePage)"
    by (simp add: samplePage_matches)
  have one: "itoa (0 + 1) = ''1''"
    by (simp add: itoa.simps digitChar_def)
  from T zero have at0:
    "Type (extractAccountsFromSource samplePage ! 0) = AccountTypeSavings"
    "Name (extractAccountsFromSource samplePage ! 0) = ''NAB Account '' @ itoa (0 + 1)"
    "AvailableBalance (extractAccountsFromSource samplePage ! 0)
       = Some (Balance (extractAccountsFromSource samplePage ! 0))"
    "AccountNumber (extractAccountsFromSource samplePage ! 0) = None"
    "BSB (extractAccountsFromSource samplePage ! 0) = None"
    by blast+
  have run: "accountsVar (snd (scrapeAccounts sampleEngine startWorld)) = extractAccountsFromSource samplePage"
    by (simp add: scrapeAccounts_def extractAccountsGeneric_def OuterHTML_def Sleep_def
        sampleEngine_def startWorld_def)
  from at0(1) have "Type (extractAccountsFromSource samplePage ! 0) = ''savings''"
    by (simp add: AccountTypeSavings_def)
  moreover from at0(2) have "Name (extractAccountsFromSource samplePage ! 0) = ''NAB Account 1''"
    unfolding one by simp
  ultimately show ?thesis using at0(3-5) run classified by blast
qed

section \<open>Properties of the account-type classification\<close>

lemma hasPrefix_iff: "hasPrefix s pre \<longleftrightarrow> (\<exists>post. s = pre @ post)"
proof
  assume "hasPrefix s pre"
  then have "s = pre @ drop (length pre) s"
    by (metis append_take_drop_id hasPrefix_def)
  then show "\<exists>post. s = pre @ post" ..
next
  assume "\<exists>post. s = pre @ post"
  then show "hasPrefix s pre" by (auto simp: hasPrefix_def)
qed

lemma contains_iff: "contains s sub \<longleftrightarrow> (\<exists>pre post. s = pre @ sub @ post)"
proof (induction s)
  case Nil
  show ?case by auto
next
  case (Cons c s)
  show ?case
  proof
    assume "contains (c # s) sub"
    then consider "hasPrefix (c # s) sub" | "contains s sub" by auto
    then show "\<exists>pre post. c # s = pre @ sub @ post"
    proof cases
      case 1
      then obtain post where "c # s = sub @ post" by (auto simp: hasPrefix_iff)
      then have "c # s = [] @ sub @ post" by simp
      then show ?thesis by blast
    next
      case 2
      with Cons obtain pre post where "s = pre @ sub @ post" by blast
      then have "c # s = (c # pre) @ sub @ post" by simp
      then show ?thesis by blast
    qed
  next
    assume "\<exists>pre post. c # s = pre @ sub @ post"
    then obtain pre post where eq: "c # s = pre @ sub @ post" by blast
    show "contains (c # s) sub"
    proof (cases pre)
      case Nil
      with eq have "hasPrefix (c # s) sub" by (auto simp: hasPrefix_iff)
      then show ?thesis by simp
    next
      case (Cons p pre')
      with eq have "s = pre' @ sub @ post" by simp
      with Cons.IH have "contains s sub" by blast
      then show ?thesis by simp
    qed
  qed
qed

lemma toLower_ascii_mid:
  "isASCII c \<Longrightarrow> toLower L (xs @ c # ys) = toLower L xs @ lowerASCII c # toLower L ys"
proof (induction xs rule: length_induct)
  case (1 xs)
  show ?case
  proof (cases xs)
    case Nil
    with 1(2) show ?thesis by simp
  next
    case (Cons x xs')
    show ?thesis
    proof (cases "isASCII x")
      case True
      have "length xs' < length xs" using Cons by simp
      with 1 have "toLower L (xs' @ c # ys) = toLower L xs' @ lowerASCII c # toLower L ys"
        by blast
      with True Cons show ?thesis by simp
    next
      case False
      let ?P = "\<lambda>x. \<not> isASCII x"
      have tw: "takeWhile ?P (xs @ c # ys) = takeWhile ?P xs"
        using 1(2) by (induction xs) auto
      have dw: "dropWhile ?P (xs @ c # ys) = dropWhile ?P xs @ c # ys"
        using 1(2) by (induction xs) auto
      have "length (dropWhile ?P xs) < length xs"
        using False Cons length_dropWhile_le [of ?P xs'] by simp
      with 1 have ih: "toLower L (dropWhile ?P xs @ c # ys)
                        = toLower L (dropWhile ?P xs) @ lowerASCII c # toLower L ys"
        by blast
      have a: "toLower L (xs @ c # ys)
              = L (takeWhile ?P (xs @ c # ys)) @ toLower L (dropWhile ?P (xs @ c # ys))"
        using False Cons by simp
      have b: "toLower L xs = L (takeWhile ?P xs) @ toLower L (dropWhile ?P xs)"
        using False Cons by simp
      show ?thesis unfolding a b tw dw ih by simp
    qed
  qed
qed

lemma toLower_ascii_word:
  "list_all isASCII w \<Longrightarrow> w \<noteq> [] \<Longrightarrow>
   toLower L (xs @ w @ ys) = toLower L xs @ map lowerASCII w @ toLower L ys"
proof (induction w arbitrary: xs)
  case Nil
  then show ?case by simp
next
  case (Cons c w)
  from Cons.prems have c: "isASCII c" and w: "list_all isASCII w" by simp_all
  show ?case
  proof (cases "w = []")
    case True
    with toLower_ascii_mid [OF c, of L xs ys] show ?thesis by simp
  next
    case False
    from Cons.IH [OF w False, of "[]"] have "toLower L (w @ ys) = map lowerASCII w @ toLower L ys"
      by simp
    with toLower_ascii_mid [OF c, of L xs "w @ ys"] show ?thesis by simp
  qed
qed

lemma lowerASCII_isASCII: "isASCII (lowerASCII c) = isASCII c"
  by (auto simp: lowerASCII_def isASCII_def split: option.splits if_splits)

lemma lowered_word_ascii:
  assumes "map lowerASCII w = v" and "list_all isASCII v"
  shows "list_all isASCII w"
proof -
  from assms have "list_all isASCII (map lowerASCII w)" by simp
  then show ?thesis by (simp add: list_all_iff lowerASCII_isASCII)
qed

lemma contains_lowered_word:
  assumes "map lowerASCII w = v" and "list_all isASCII v" and "contains v kw"
  shows "contains (toLower L (pre @ w @ post)) kw"
proof (cases "w = []")
  case True
  with assms(1) have "v = []" by simp
  with assms(3) have "kw = []" by simp
  then have "toLower L (pre @ w @ post) = [] @ kw @ toLower L (pre @ w @ post)" by simp
  then show ?thesis unfolding contains_iff by blast
next
  case False
  from assms(3) obtain a b where v: "v = a @ kw @ b" by (auto simp: contains_iff)
  from lowered_word_ascii [OF assms(1,2)] have "list_all isASCII w" .
  from toLower_ascii_word [OF this False, of L pre post] assms(1) v
  have "toLower L (pre @ w @ post) = (toLower L pre @ a) @ kw @ (b @ toLower L post)" by simp
  then show ?thesis unfolding contains_iff by blast
qed

lemma extractAccountType_table: "extractAccountType L text = classifyByTable L text"
  by (simp add: extractAccountType_def classifyByTable_def keywordTable_def Let_def
      AccountTypeSavings_def AccountTypeCredit_def AccountTypeLoan_def
      AccountTypeInvestment_def AccountTypeChecking_def)

text \<open>
  Claim C5. The classification is the search of the ordered keyword table (saver,
  savings, credit, loan, investment) in the lower-cased text, where the first entry found
  decides. A text that holds \<open>reward saver\<close> in any mix of upper and lower case is
  savings; a text that holds \<open>credit card\<close> in any case and neither \<open>saver\<close> nor
  \<open>savings\<close> is credit, as is the text \<open>credit card\<close> itself; and a text without any
  of the five keywords is checking.
\<close>

theorem extractAccountType_keyword_order:
  "extractAccountType L text = classifyByTable L text
   \<and> (map lowerASCII w = ''reward saver'' \<longrightarrow>
        extractAccountType L (pre @ w @ post) = AccountTypeSavings)
   \<and> (map lowerASCII w = ''credit card''
        \<and> \<not> contains (toLower L (pre @ w @ post)) ''saver''
        \<and> \<not> contains (toLower L (pre @ w @ post)) ''savings'' \<longrightarrow>
        extractAccountType L (pre @ w @ post) = AccountTypeCredit)
   \<and> extractAccountType L ''credit card'' = AccountTypeCredit
   \<and> ((\<forall>kw \<in> set (map fst keywordTable). \<not> contains (toLower L text) kw) \<longrightarrow>
        extractAccountType L text = AccountTypeChecking)"
proof (intro conjI impI)
  show "extractAccountType L text = classifyByTable L text"
    by (rule extractAccountType_table)
next
  assume w: "map lowerASCII w = ''reward saver''"
  have "contains ''reward saver'' ''saver''"
    by (simp add: hasPrefix_def)
  with w have "contains (toLower L (pre @ w @ post)) ''saver''"
    by (intro contains_lowered_word [where v = "''reward saver''"]) (simp_all add: isASCII_def)
  then show "extractAccountType L (pre @ w @ post) = AccountTypeSavings"
    by (simp add: extractAccountType_def)
next
  assume a: "map lowerASCII w = ''credit card''
        \<and> \<not> contains (toLower L (pre @ w @ post)) ''saver''
        \<and> \<not> contains (toLower L (pre @ w @ post)) ''savings''"
  have "contains ''credit card'' ''credit''"
    by (simp add: hasPrefix_def)
  with a have "contains (toLower L (pre @ w @ post)) ''credit''"
    by (intro contains_lowered_word [where v = "''credit card''"]) (simp_all add: isASCII_def)
  with a show "extractAccountType L (pre @ w @ post) = AccountTypeCredit"
    by (simp add: extractAccountType_def)
next
  show "extractAccountType L ''credit card'' = AccountTypeCredit"
    by (simp add: extractAccountType_def isASCII_def lowerASCII_def hasPrefix_def)
next
  assume "\<forall>kw \<in> set (map fst keywordTable). \<not> contains (toLower L text) kw"
  then show "extractAccountType L text = AccountTypeChecking"
    by (simp add: extractAccountType_def keywordTable_def)
qed

theorem extractAccountType_keyword_order_witness:
  "extractAccountType id ''NAB Reward Saver (credit line)'' = ''savings''
   \<and> extractAccountType id ''My CREDIT CARD'' = ''credit''
   \<and> extractAccountType id ''Everyday Account'' = ''checking''"
proof -
  have w1: "map lowerASCII ''Reward Saver'' = ''reward saver''"
    by (simp add: lowerASCII_def)
  have w2: "map lowerASCII ''CREDIT CARD'' = ''credit card''"
    by (simp add: lowerASCII_def)
  have low2: "toLower id ''My CREDIT CARD'' = ''my credit card''"
    by (simp add: isASCII_def lowerASCII_def)
  have low3: "toLower id ''Everyday Account'' = ''everyday account''"
    by (simp add: isASCII_def lowerASCII_def)
  have n2: "\<not> contains (toLower id (''My '' @ ''CREDIT CARD'' @ [])) ''saver''
          \<and> \<not> contains (toLower id (''My '' @ ''CREDIT CARD'' @ [])) ''savings''"
    using low2 by (simp add: hasPrefix_def)
  have n3: "\<forall>kw \<in> set (map fst keywordTable). \<not> contains (toLower id ''Everyday Account'') kw"
    unfolding low3 by (simp add: keywordTable_def hasPrefix_def)
  from extractAccountType_keyword_order [of id "''Everyday Account''" "''Reward Saver''" "''NAB ''" "'' (credit line)''"] w1
  have a: "extractAccountType id (''NAB '' @ ''Reward Saver'' @ '' (credit line)'') = AccountTypeSavings"
    by blast
  from extractAccountType_keyword_order [of id "''Everyday Account''" "''CREDIT CARD''" "''My ''" "[]"] w2 n2
  have b: "extractAccountType id (''My '' @ ''CREDIT CARD'' @ []) = AccountTypeCredit"
    by blast
  from extractAccountType_keyword_order [of id "''Everyday Account''" "''CREDIT CARD''" "''My ''" "[]"] n3
  have c: "extractAccountType id ''Everyday Account'' = AccountTypeChecking"
    by blast
  from a b c show ?thesis
    by (simp add: AccountTypeSavings_def AccountTypeCredit_def AccountTypeChecking_def)
qed

section \<open>Properties of the balance extraction\<close>

lemma isDigit_isAmountChar: "isDigit c \<Longrightarrow> isAmountChar c"
  by (simp add: isAmountChar_def)

lemma dot_not_amountChar: "\<not> isAmountChar (CHR ''.'')"
  by (simp add: isAmountChar_def isDigit_def)

lemma matchAmount_digits:
  assumes ds: "list_all isDigit ds" "ds \<noteq> []" and d: "isDigit d1" "isDigit d2"
  shows "matchAmount (ds @ [CHR ''.'', d1, d2]) = Some (ds @ [CHR ''.'', d1, d2], [])"
proof -
  from ds(1) have all: "\<forall>x \<in> set ds. isAmountChar x"
    by (simp add: list_all_iff isDigit_isAmountChar)
  have tw: "takeWhile isAmountChar (ds @ [CHR ''.'', d1, d2]) = ds"
    using all dot_not_amountChar by (simp add: takeWhile_append2)
  have dw: "dropWhile isAmountChar (ds @ [CHR ''.'', d1, d2]) = [CHR ''.'', d1, d2]"
    using all dot_not_amountChar by (simp add: dropWhile_append2)
  show ?thesis
    unfolding matchAmount_def Let_def tw dw using ds(2) d by simp
qed

lemma removeCommas_digits: "list_all isDigit ds \<Longrightarrow> removeCommas ds = ds"
  by (induction ds) (auto simp: removeCommas_def dest: isDigit_not_comma)

lemma isNormalizedAmount_D:
  assumes "isNormalizedAmount a"
  shows "\<exists>ds d1 d2. a = ds @ [CHR ''.'', d1, d2] \<and> list_all isDigit ds \<and> isDigit d1 \<and> isDigit d2"
proof -
  from assms obtain d2 d1 ds where r: "rev a = d2 # d1 # CHR ''.'' # ds"
    and d: "isDigit d1" "isDigit d2" "list_all isDigit ds"
    by (auto simp: isNormalizedAmount_def split: list.splits)
  from r have "rev (rev a) = rev (d2 # d1 # CHR ''.'' # ds)" by simp
  then have "a = rev ds @ [CHR ''.'', d1, d2]" by simp
  moreover from d(3) have "list_all isDigit (rev ds)" by (simp add: list_all_iff)
  ultimately show ?thesis using d(1,2) by blast
qed

lemma findBalance_at_start: "matchBalanceAt s = Some m \<Longrightarrow> findBalance s = Some m"
  by (cases s) (simp_all add: matchBalanceAt_def)

lemma extractBalance_fixed:
  assumes n: "isNormalizedAmount a" and h: "isDigit (hd a)"
  shows "extractBalance a = a"
proof -
  from isNormalizedAmount_D [OF n] obtain ds d1 d2 where
    a: "a = ds @ [CHR ''.'', d1, d2]" and ds: "list_all isDigit ds" and d: "isDigit d1" "isDigit d2"
    by blast
  have ne: "ds \<noteq> []"
  proof
    assume "ds = []"
    with a h show False by (simp add: isDigit_def)
  qed
  then obtain c s where cs: "ds = c # s" by (cases ds) auto
  with ds have c: "isDigit c" by simp
  have m: "matchAmount a = Some (a, [])"
    unfolding a using ds ne d by (rule matchAmount_digits)
  have a': "a = c # (s @ [CHR ''.'', d1, d2])" by (simp add: a cs)
  have "matchBalanceAt a = Some a"
    using m isDigit_not_dollar [OF c] by (simp add: matchBalanceAt_def a')
  then have "findBalance a = Some a"
    by (rule findBalance_at_start)
  moreover have "removeCommas a = a"
    unfolding a
    using removeCommas_digits [OF ds] isDigit_not_comma [OF d(1)] isDigit_not_comma [OF d(2)]
    by (simp add: removeCommas_def)
  ultimately show ?thesis by (simp add: extractBalance_def)
qed

lemma matchBalanceAt_shape:
  assumes "matchBalanceAt s = Some m"
  shows "\<exists>run d1 d2. m = run @ [CHR ''.'', d1, d2] \<and> list_all isAmountChar run
           \<and> isDigit d1 \<and> isDigit d2"
proof -
  from assms obtain s' rest where "matchAmount s' = Some (m, rest)"
    by (auto simp: matchBalanceAt_def split: list.splits if_splits option.splits)
  from matchAmount_shape [OF this] show ?thesis by blast
qed

lemma findBalance_shape:
  "findBalance s = Some m \<Longrightarrow>
   \<exists>run d1 d2. m = run @ [CHR ''.'', d1, d2] \<and> list_all isAmountChar run
           \<and> isDigit d1 \<and> isDigit d2"
proof (induction s)
  case Nil
  then show ?case by simp
next
  case (Cons c s)
  show ?case
  proof (cases "matchBalanceAt (c # s)")
    case None
    with Cons show ?thesis by simp
  next
    case (Some m')
    with Cons.prems have "m' = m" by simp
    with Some matchBalanceAt_shape show ?thesis by blast
  qed
qed

lemma extractBalance_normalized:
  assumes "extractBalance t \<noteq> []"
  shows "isNormalizedAmount (extractBalance t)"
proof -
  from assms obtain m where m: "findBalance t = Some m" and e: "extractBalance t = removeCommas m"
    by (auto simp: extractBalance_def split: option.splits)
  from findBalance_shape [OF m] obtain run d1 d2 where
    s: "m = run @ [CHR ''.'', d1, d2]" "list_all isAmountChar run" "isDigit d1" "isDigit d2"
    by blast
  have "removeCommas m = removeCommas run @ [CHR ''.'', d1, d2]"
    using s(3,4) isDigit_not_comma [of d1] isDigit_not_comma [of d2]
    by (simp add: s(1) removeCommas_def)
  with e s removeCommas_all_digits [OF s(2)] show ?thesis
    by (simp add: isNormalizedAmount_shape)
qed

lemma findAll_without_dollar: "CHR ''$'' \<notin> set s \<Longrightarrow> findAllDollarAmounts s = []"
proof (induction s)
  case Nil
  show ?case by simp
next
  case (Cons c s)
  then have "matchDollarAmount (c # s) = None" by (auto simp: matchDollarAmount_def)
  with Cons show ?case by simp
qed

lemma normalized_without_dollar:
  assumes "isNormalizedAmount a"
  shows "CHR ''$'' \<notin> set a"
proof -
  from isNormalizedAmount_D [OF assms] obtain ds d1 d2 where
    a: "a = ds @ [CHR ''.'', d1, d2]" and ds: "list_all isDigit ds" and d: "isDigit d1" "isDigit d2"
    by blast
  from ds have "CHR ''$'' \<notin> set ds"
    by (auto simp: list_all_iff dest: isDigit_not_dollar)
  with d show ?thesis
    by (auto simp: a dest: isDigit_not_dollar)
qed

text \<open>
  Claim C6, as it stands, fails: from the text \<open>,.00\<close> the extraction returns \<open>.00\<close>,
  and from \<open>.00\<close> it returns nothing, since the pattern asks for a digit or a comma
  before the dot.
\<close>

theorem extractBalance_not_idempotent:
  "extractBalance '',.00'' = ''.00'' \<and> extractBalance ''.00'' = []
   \<and> extractBalance (extractBalance '',.00'') \<noteq> extractBalance '',.00''"
  by (simp add: extractBalance_def matchBalanceAt_def matchAmount_def isAmountChar_def
      isDigit_def removeCommas_def)

text \<open>
  Claim C6, amended. What \<^verbatim>\<open>extractBalance\<close> returns is empty or a normalized amount
  (digits, a dot, two digits). On a normalized amount that starts with a digit it returns
  the amount itself, so it is idempotent on each of its results that is empty or starts
  with a digit. The pattern of the generic extractor asks for the dollar sign, and finds
  nothing in a normalized amount.
\<close>

theorem extractBalance_idempotent_with_integer_digit:
  "(isNormalizedAmount a \<and> isDigit (hd a) \<longrightarrow> extractBalance a = a)
   \<and> (extractBalance t \<noteq> [] \<longrightarrow> isNormalizedAmount (extractBalance t))
   \<and> (extractBalance t = [] \<or> isDigit (hd (extractBalance t)) \<longrightarrow>
        extractBalance (extractBalance t) = extractBalance t)
   \<and> (isNormalizedAmount a \<longrightarrow> findAllDollarAmounts a = [])"
proof (intro conjI impI)
  show "extractBalance a = a" if "isNormalizedAmount a \<and> isDigit (hd a)"
    using that extractBalance_fixed by blast
  show "isNormalizedAmount (extractBalance t)" if "extractBalance t \<noteq> []"
    using that by (rule extractBalance_normalized)
  show "extractBalance (extractBalance t) = extractBalance t"
    if "extractBalance t = [] \<or> isDigit (hd (extractBalance t))"
  proof (cases "extractBalance t = []")
    case True
    then show ?thesis by (simp add: extractBalance_def)
  next
    case False
    with that have "isDigit (hd (extractBalance t))" by blast
    with extractBalance_normalized [OF False] show ?thesis by (rule extractBalance_fixed)
  qed
  show "findAllDollarAmounts a = []" if "isNormalizedAmount a"
    using normalized_without_dollar [OF that] by (rule findAll_without_dollar)
qed

theorem extractBalance_idempotent_with_integer_digit_witness:
  "extractBalance ''Balance: $1,234.56 CR'' = ''1234.56''
   \<and> isNormalizedAmount ''1234.56'' \<and> isDigit (hd ''1234.56'')
   \<and> extractBalance ''1234.56'' = ''1234.56''
   \<and> extractBalance (extractBalance ''Balance: $1,234.56 CR'') = extractBalance ''Balance: $1,234.56 CR''
   \<and> findAllDollarAmounts ''1234.56'' = []"
proof -
  note T = extractBalance_idempotent_with_integer_digit
    [of "''1234.56''" "''Balance: $1,234.56 CR''"]
  have e: "extractBalance ''Balance: $1,234.56 CR'' = ''1234.56''"
    by (simp add: extractBalance_def matchBalanceAt_def matchAmount_def isAmountChar_def
        isDigit_def removeCommas_def)
  have n: "isNormalizedAmount ''1234.56''"
    by (simp add: isNormalizedAmount_def isDigit_def)
  have h: "isDigit (hd ''1234.56'')"
    by (simp add: isDigit_def)
  from T n h have fixed: "extractBalance ''1234.56'' = ''1234.56''"
    by blast
  from T n have nomatch: "findAllDollarAmounts ''1234.56'' = []"
    by blast
  from T e h
  have idem: "extractBalance (extractBalance ''Balance: $1,234.56 CR'') = extractBalance ''Balance: $1,234.56 CR''"
    by simp
  from e n h fixed idem nomatch show ?thesis by blast
qed

section \<open>Properties of the browser client\<close>

lemma probes_append: "probes (xs @ ys) = probes xs @ probes ys"
  by (induction xs rule: probes.induct) simp_all

lemma screenshots_append: "screenshots (xs @ ys) = screenshots xs @ screenshots ys"
  by (induction xs rule: screenshots.induct) simp_all

lemma probes_probeEvents: "probes (map probeEvent ps) = ps"
  by (induction ps) (simp_all add: probeEvent_def)

lemma screenshots_probeEvents: "screenshots (map probeEvent ps) = []"
  by (induction ps) (simp_all add: probeEvent_def)


lemma WaitVisible_events:
  "events (snd (WaitVisible E sel w)) = events w @ [probeEvent (sel, fst (WaitVisible E sel w) = None)]"
  by (simp add: WaitVisible_def probeEvent_def Let_def split: prod.splits)

lemma WaitVisible_result:
  "fst (WaitVisible E sel w) = None \<or> (\<exists>m. fst (WaitVisible E sel w) = Some (EngineError m))"
  by (auto simp: WaitVisible_def Let_def split: prod.splits)

lemma Click_events: "events (snd (Click E sel w)) = events w @ [EvClick sel]"
  by (simp add: Click_def Let_def split: prod.splits)

lemma Click_result:
  "fst (Click E sel w) = None \<or> (\<exists>m. fst (Click E sel w) = Some (EngineError m))"
  by (auto simp: Click_def Let_def split: prod.splits)

lemma SendKeys_events: "events (snd (SendKeys E sel v w)) = events w @ [EvSendKeys sel v]"
  by (simp add: SendKeys_def Let_def split: prod.splits)

lemma SendKeys_result:
  "fst (SendKeys E sel v w) = None \<or> (\<exists>m. fst (SendKeys E sel v w) = Some (EngineError m))"
  by (auto simp: SendKeys_def Let_def split: prod.splits)

lemma Sleep_events: "events (snd (Sleep E n w)) = events w @ [EvSleep n]"
  by (simp add: Sleep_def Let_def split: prod.splits)

lemma Sleep_result:
  "fst (Sleep E n w) = None \<or> (\<exists>m. fst (Sleep E n w) = Some (EngineError m))"
  by (auto simp: Sleep_def Let_def split: prod.splits)

lemma Navigate_events: "events (snd (Navigate E url w)) = events w @ [EvNavigate url]"
  by (simp add: Navigate_def Let_def split: prod.splits)

lemma Navigate_result:
  "fst (Navigate E url w) = None \<or> (\<exists>m. fst (Navigate E url w) = Some (EngineError m))"
  by (auto simp: Navigate_def Let_def split: prod.splits)

lemma OuterHTML_events: "events (snd (OuterHTML E sel w)) = events w @ [EvOuterHTML sel]"
  by (simp add: OuterHTML_def Let_def split: prod.splits)

lemma takeScreenshot_events: "events (takeScreenshot E tag w) = events w @ [EvScreenshot tag]"
  by (simp add: takeScreenshot_def Let_def split: prod.splits)

lemma clickFirstVisible_events:
  "\<exists>ps r. firstMatchTrace cs ps r
     \<and> events (snd (clickFirstVisible E cs w))
         = events w @ map probeEvent ps @ (case r of None \<Rightarrow> [] | Some c \<Rightarrow> [EvClick c])
     \<and> (r = None \<longleftrightarrow> fst (clickFirstVisible E cs w) = None)
     \<and> (r = None \<longrightarrow> length ps = length cs \<and> list_all (\<lambda>p. \<not> snd p) ps)
     \<and> (\<forall>cr. fst (clickFirstVisible E cs w) = Some cr \<longrightarrow> cr = None \<or> (\<exists>m. cr = Some (EngineError m)))"
proof (induction cs arbitrary: w)
  case Nil
  have "firstMatchTrace [] [] None" by simp
  then show ?case by (intro exI [of _ "[]"] exI [of _ None]) simp
next
  case (Cons c cs)
  obtain e w1 where wv: "WaitVisible E c w = (e, w1)" by (cases "WaitVisible E c w")
  have ev1: "events w1 = events w @ [probeEvent (c, e = None)]"
    using WaitVisible_events [of E c w] wv by simp
  show ?case
  proof (cases e)
    case None
    obtain cr w2 where cl: "Click E c w1 = (cr, w2)" by (cases "Click E c w1")
    have ev2: "events w2 = events w1 @ [EvClick c]"
      using Click_events [of E c w1] cl by simp
    have res: "clickFirstVisible E (c # cs) w = (Some cr, w2)"
      using wv None cl by simp
    have cr: "cr = None \<or> (\<exists>m. cr = Some (EngineError m))"
      using Click_result [of E c w1] cl by simp
    have "firstMatchTrace (c # cs) [(c, True)] (Some c)" by simp
    moreover have "events (snd (clickFirstVisible E (c # cs) w))
         = events w @ map probeEvent [(c, True)] @ (case Some c of None \<Rightarrow> [] | Some c \<Rightarrow> [EvClick c])"
      using res ev1 ev2 None by simp
    ultimately show ?thesis using res cr
      by (intro exI [of _ "[(c, True)]"] exI [of _ "Some c"]) simp
  next
    case (Some err)
    have res: "clickFirstVisible E (c # cs) w = clickFirstVisible E cs w1"
      using wv Some by simp
    from Cons.IH [of w1] obtain ps r where
      t: "firstMatchTrace cs ps r"
      and ev: "events (snd (clickFirstVisible E cs w1))
         = events w1 @ map probeEvent ps @ (case r of None \<Rightarrow> [] | Some c \<Rightarrow> [EvClick c])"
      and rn: "r = None \<longleftrightarrow> fst (clickFirstVisible E cs w1) = None"
      and all: "r = None \<longrightarrow> length ps = length cs \<and> list_all (\<lambda>p. \<not> snd p) ps"
      and cr: "\<forall>cr. fst (clickFirstVisible E cs w1) = Some cr \<longrightarrow> cr = None \<or> (\<exists>m. cr = Some (EngineError m))"
      by (elim exE conjE)
    have "firstMatchTrace (c # cs) ((c, False) # ps) r" using t by simp
    moreover have "events (snd (clickFirstVisible E (c # cs) w))
         = events w @ map probeEvent ((c, False) # ps) @ (case r of None \<Rightarrow> [] | Some c \<Rightarrow> [EvClick c])"
      using res ev ev1 Some by simp
    ultimately show ?thesis using rn all cr unfolding res
      by (intro exI [of _ "(c, False) # ps"] exI [of _ r]) simp
  qed
qed

lemma findVisible_events:
  "\<exists>ps r. firstMatchTrace cs ps r
     \<and> events (snd (findVisible E cs w)) = events w @ map probeEvent ps
     \<and> fst (findVisible E cs w) = (case r of None \<Rightarrow> [] | Some c \<Rightarrow> c)
     \<and> (r = None \<longrightarrow> length ps = length cs \<and> list_all (\<lambda>p. \<not> snd p) ps)
     \<and> (\<forall>c. r = Some c \<longrightarrow> c \<in> set cs)"
proof (induction cs arbitrary: w)
  case Nil
  have "firstMatchTrace [] [] None" by simp
  then show ?case by (intro exI [of _ "[]"] exI [of _ None]) simp
next
  case (Cons c cs)
  obtain e w1 where wv: "WaitVisible E c w = (e, w1)" by (cases "WaitVisible E c w")
  have ev1: "events w1 = events w @ [probeEvent (c, e = None)]"
    using WaitVisible_events [of E c w] wv by simp
  show ?case
  proof (cases e)
    case None
    have res: "findVisible E (c # cs) w = (c, w1)"
      using wv None by simp
    have "firstMatchTrace (c # cs) [(c, True)] (Some c)" by simp
    then show ?thesis using res ev1 None
      by (intro exI [of _ "[(c, True)]"] exI [of _ "Some c"]) simp
  next
    case (Some err)
    have res: "findVisible E (c # cs) w = findVisible E cs w1"
      using wv Some by simp
    from Cons.IH [of w1] obtain ps r where
      t: "firstMatchTrace cs ps r"
      and ev: "events (snd (findVisible E cs w1)) = events w1 @ map probeEvent ps"
      and rn: "fst (findVisible E cs w1) = (case r of None \<Rightarrow> [] | Some c \<Rightarrow> c)"
      and all: "r = None \<longrightarrow> length ps = length cs \<and> list_all (\<lambda>p. \<not> snd p) ps"
      and mem: "\<forall>c. r = Some c \<longrightarrow> c \<in> set cs"
      by (elim exE conjE)
    have "firstMatchTrace (c # cs) ((c, False) # ps) r" using t by simp
    moreover have "events (snd (findVisible E (c # cs) w)) = events w @ map probeEvent ((c, False) # ps)"
      using res ev ev1 Some by simp
    ultimately show ?thesis using rn all mem unfolding res
      by (intro exI [of _ "(c, False) # ps"] exI [of _ r]) auto
  qed
qed

lemma firstMatchTrace_meaning:
  "firstMatchTrace cs ps r \<Longrightarrow>
     map fst ps = take (length ps) cs
   \<and> list_all (\<lambda>p. \<not> snd p) (butlast ps)
   \<and> (case r of None \<Rightarrow> length ps = length cs \<and> list_all (\<lambda>p. \<not> snd p) ps
       | Some c \<Rightarrow> ps \<noteq> [] \<and> last ps = (c, True))"
proof (induction cs ps r rule: firstMatchTrace.induct)
  case (1 ps r)
  then show ?case by simp
next
  case (2 c cs r)
  then show ?case by simp
next
  case (3 c cs sel ok ps r)
  show ?case
  proof (cases ok)
    case True
    with 3(2) show ?thesis by simp
  next
    case False
    with 3 have t: "firstMatchTrace cs ps r" and s: "sel = c" by simp_all
    from 3(1) [OF False t] s False show ?thesis
      by (cases ps) (auto split: option.splits)
  qed
qed

lemma clickLoginButton_events:
  "\<exists>ps r. firstMatchTrace loginButtonSelectors ps r
     \<and> events (snd (clickLoginButton E w))
         = events w @ map probeEvent ps
           @ (case r of None \<Rightarrow> [EvScreenshot ''login_button_not_found''] | Some c \<Rightarrow> [EvClick c])
     \<and> (r = None \<longleftrightarrow> fst (clickLoginButton E w) = Some (Errorf ''could not find login button''))
     \<and> (r = None \<longrightarrow> list_all (\<lambda>p. \<not> snd p) ps)
     \<and> (r \<noteq> None \<longrightarrow> fst (clickLoginButton E w) = None
                      \<or> (\<exists>m. fst (clickLoginButton E w) = Some (EngineError m)))"
proof -
  from clickFirstVisible_events [of loginButtonSelectors E w] obtain ps r where
    t: "firstMatchTrace loginButtonSelectors ps r"
    and ev: "events (snd (clickFirstVisible E loginButtonSelectors w))
         = events w @ map probeEvent ps @ (case r of None \<Rightarrow> [] | Some c \<Rightarrow> [EvClick c])"
    and rn: "r = None \<longleftrightarrow> fst (clickFirstVisible E loginButtonSelectors w) = None"
    and all: "r = None \<longrightarrow> length ps = length loginButtonSelectors \<and> list_all (\<lambda>p. \<not> snd p) ps"
    and cr: "\<forall>cr. fst (clickFirstVisible E loginButtonSelectors w) = Some cr \<longrightarrow> cr = None \<or> (\<exists>m. cr = Some (EngineError m))"
    by (elim exE conjE)
  obtain x w' where res: "clickFirstVisible E loginButtonSelectors w = (x, w')"
    by (cases "clickFirstVisible E loginButtonSelectors w")
  show ?thesis
  proof (cases x)
    case None
    with rn res have r: "r = None" by simp
    have "clickLoginButton E w = (Some (Errorf ''could not find login button''),
            takeScreenshot E ''login_button_not_found'' w')"
      using res None by (simp add: clickLoginButton_def)
    with t ev all r res show ?thesis
      by (intro exI [of _ ps] exI [of _ r]) (simp add: takeScreenshot_events)
  next
    case (Some cr')
    with rn res obtain c where r: "r = Some c" by (cases r) simp_all
    have out: "clickLoginButton E w = (cr', w')"
      using res Some by (simp add: clickLoginButton_def)
    from cr res Some have "cr' = None \<or> (\<exists>m. cr' = Some (EngineError m))" by simp
    with t ev r res out show ?thesis
      by (intro exI [of _ ps] exI [of _ r]) auto
  qed
qed

lemma selectInternetBanking_events:
  "\<exists>ps r. firstMatchTrace internetBankingSelectors ps r
     \<and> events (snd (selectInternetBanking E w))
         = events w @ [EvSleep 1] @ map probeEvent ps
           @ (case r of None \<Rightarrow> [EvScreenshot ''internet_banking_not_found''] | Some c \<Rightarrow> [EvClick c])
     \<and> (r = None \<longleftrightarrow> fst (selectInternetBanking E w)
                          = Some (Errorf ''could not find Internet Banking link in dropdown''))
     \<and> (r = None \<longrightarrow> list_all (\<lambda>p. \<not> snd p) ps)
     \<and> (r \<noteq> None \<longrightarrow> fst (selectInternetBanking E w) = None
                      \<or> (\<exists>m. fst (selectInternetBanking E w) = Some (EngineError m)))"
proof -
  obtain ig w0 where sl: "Sleep E 1 w = (ig, w0)" by (cases "Sleep E 1 w")
  have ev0: "events w0 = events w @ [EvSleep 1]"
    using Sleep_events [of E 1 w] sl by simp
  from clickFirstVisible_events [of internetBankingSelectors E w0] obtain ps r where
    t: "firstMatchTrace internetBankingSelectors ps r"
    and ev: "events (snd (clickFirstVisible E internetBankingSelectors w0))
         = events w0 @ map probeEvent ps @ (case r of None \<Rightarrow> [] | Some c \<Rightarrow> [EvClick c])"
    and rn: "r = None \<longleftrightarrow> fst (clickFirstVisible E internetBankingSelectors w0) = None"
    and all: "r = None \<longrightarrow> length ps = length internetBankingSelectors \<and> list_all (\<lambda>p. \<not> snd p) ps"
    and cr: "\<forall>cr. fst (clickFirstVisible E internetBankingSelectors w0) = Some cr \<longrightarrow> cr = None \<or> (\<exists>m. cr = Some (EngineError m))"
    by (elim exE conjE)
  obtain x w' where res: "clickFirstVisible E internetBankingSelectors w0 = (x, w')"
    by (cases "clickFirstVisible E internetBankingSelectors w0")
  show ?thesis
  proof (cases x)
    case None
    with rn res have r: "r = None" by simp
    have "selectInternetBanking E w = (Some (Errorf ''could not find Internet Banking link in dropdown''),
            takeScreenshot E ''internet_banking_not_found'' w')"
      using res None sl by (simp add: selectInternetBanking_def)
    with t ev ev0 all r res show ?thesis
      by (intro exI [of _ ps] exI [of _ r]) (simp add: takeScreenshot_events)
  next
    case (Some cr')
    with rn res obtain c where r: "r = Some c" by (cases r) simp_all
    have out: "selectInternetBanking E w = (cr', w')"
      using res Some sl by (simp add: selectInternetBanking_def)
    from cr res Some have "cr' = None \<or> (\<exists>m. cr' = Some (EngineError m))" by simp
    with t ev ev0 r res out show ?thesis
      by (intro exI [of _ ps] exI [of _ r]) auto
  qed
qed

lemma login_tasks_events:
  "\<exists>acts. events (snd (runTasks [SendKeys E u a, SendKeys E p b, Click E s] w)) = events w @ acts
     \<and> acts \<noteq> []
     \<and> acts = take (length acts) [EvSendKeys u a, EvSendKeys p b, EvClick s]
     \<and> (fst (runTasks [SendKeys E u a, SendKeys E p b, Click E s] w) = None \<longrightarrow> length acts = 3)
     \<and> (fst (runTasks [SendKeys E u a, SendKeys E p b, Click E s] w) = None
          \<or> (\<exists>m. fst (runTasks [SendKeys E u a, SendKeys E p b, Click E s] w) = Some (EngineError m)))"
proof -
  obtain e1 w1 where s1: "SendKeys E u a w = (e1, w1)" by (cases "SendKeys E u a w")
  obtain e2 w2 where s2: "SendKeys E p b w1 = (e2, w2)" by (cases "SendKeys E p b w1")
  obtain e3 w3 where s3: "Click E s w2 = (e3, w3)" by (cases "Click E s w2")
  have ev1: "events w1 = events w @ [EvSendKeys u a]"
    using SendKeys_events [of E u a w] s1 by simp
  have ev2: "events w2 = events w1 @ [EvSendKeys p b]"
    using SendKeys_events [of E p b w1] s2 by simp
  have ev3: "events w3 = events w2 @ [EvClick s]"
    using Click_events [of E s w2] s3 by simp
  have r1: "e1 = None \<or> (\<exists>m. e1 = Some (EngineError m))"
    using SendKeys_result [of E u a w] s1 by simp
  have r2: "e2 = None \<or> (\<exists>m. e2 = Some (EngineError m))"
    using SendKeys_result [of E p b w1] s2 by simp
  have r3: "e3 = None \<or> (\<exists>m. e3 = Some (EngineError m))"
    using Click_result [of E s w2] s3 by simp
  show ?thesis
  proof (cases e1)
    case (Some x)
    with s1 have "runTasks [SendKeys E u a, SendKeys E p b, Click E s] w = (e1, w1)" by simp
    with ev1 r1 Some show ?thesis
      by (intro exI [of _ "[EvSendKeys u a]"]) simp
  next
    case n1: None
    show ?thesis
    proof (cases e2)
      case (Some x)
      with s1 s2 n1 have "runTasks [SendKeys E u a, SendKeys E p b, Click E s] w = (e2, w2)" by simp
      with ev1 ev2 r2 Some show ?thesis
        by (intro exI [of _ "[EvSendKeys u a, EvSendKeys p b]"]) simp
    next
      case n2: None
      with s1 s2 s3 n1 have "runTasks [SendKeys E u a, SendKeys E p b, Click E s] w = (e3, w3)"
        by (cases e3) simp_all
      with ev1 ev2 ev3 r3 show ?thesis
        by (intro exI [of _ "[EvSendKeys u a, EvSendKeys p b, EvClick s]"]) simp
    qed
  qed
qed

lemma role_lists_nonempty_strings:
  "[] \<notin> set loginButtonSelectors" "[] \<notin> set internetBankingSelectors"
  "[] \<notin> set loginSelectors" "[] \<notin> set passwordSelectors" "[] \<notin> set submitSelectors"
  by (simp_all add: loginButtonSelectors_def internetBankingSelectors_def loginSelectors_def
      passwordSelectors_def submitSelectors_def)

lemma findVisible_found:
  assumes "[] \<notin> set cs" and "findVisible E cs w = (x, w')"
  shows "\<exists>ps r. firstMatchTrace cs ps r
     \<and> events w' = events w @ map probeEvent ps
     \<and> (case r of None \<Rightarrow> x = [] \<and> list_all (\<lambda>p. \<not> snd p) ps
         | Some c \<Rightarrow> x = c \<and> c \<noteq> [])"
proof -
  from findVisible_events [of cs E w] obtain ps r where
    t: "firstMatchTrace cs ps r"
    and ev: "events (snd (findVisible E cs w)) = events w @ map probeEvent ps"
    and rn: "fst (findVisible E cs w) = (case r of None \<Rightarrow> [] | Some c \<Rightarrow> c)"
    and all: "r = None \<longrightarrow> length ps = length cs \<and> list_all (\<lambda>p. \<not> snd p) ps"
    and mem: "\<forall>c. r = Some c \<longrightarrow> c \<in> set cs"
    by (elim exE conjE)
  have "case r of None \<Rightarrow> x = [] \<and> list_all (\<lambda>p. \<not> snd p) ps
         | Some c \<Rightarrow> x = c \<and> c \<noteq> []"
    using rn all mem assms by (cases r) auto
  moreover from ev assms(2) have "events w' = events w @ map probeEvent ps" by simp
  ultimately show ?thesis using t by blast
qed

lemma performLogin_events:
  "\<exists>p1 r1 p2 r2 p3 r3 acts.
     events (snd (performLogin E cfg w)) = events w @ map probeEvent (p1 @ p2 @ p3) @ acts
     \<and> firstMatchTrace loginSelectors p1 r1
     \<and> (case r1 of
          None \<Rightarrow> p2 = [] \<and> p3 = [] \<and> acts = [] \<and> list_all (\<lambda>p. \<not> snd p) p1
                 \<and> fst (performLogin E cfg w) = Some (Errorf ''could not find username input field'')
        | Some u \<Rightarrow> firstMatchTrace passwordSelectors p2 r2
            \<and> (case r2 of
                 None \<Rightarrow> p3 = [] \<and> acts = [] \<and> list_all (\<lambda>p. \<not> snd p) p2
                        \<and> fst (performLogin E cfg w) = Some (Errorf ''could not find password input field'')
               | Some p \<Rightarrow> firstMatchTrace submitSelectors p3 r3
                   \<and> (case r3 of
                        None \<Rightarrow> acts = [] \<and> list_all (\<lambda>p. \<not> snd p) p3
                               \<and> fst (performLogin E cfg w) = Some (Errorf ''could not find submit button'')
                      | Some s \<Rightarrow> acts \<noteq> []
                          \<and> acts = take (length acts)
                               [EvSendKeys u (Username cfg), EvSendKeys p (Password cfg), EvClick s]
                          \<and> (fst (performLogin E cfg w) = None \<longrightarrow> length acts = 3)
                          \<and> (fst (performLogin E cfg w) = None
                               \<or> (\<exists>m. fst (performLogin E cfg w) = Some (EngineError m))))))"
proof -
  obtain u w1 where f1: "findVisible E loginSelectors w = (u, w1)"
    by (cases "findVisible E loginSelectors w")
  obtain p w2 where f2: "findVisible E passwordSelectors w1 = (p, w2)"
    by (cases "findVisible E passwordSelectors w1")
  obtain s w3 where f3: "findVisible E submitSelectors w2 = (s, w3)"
    by (cases "findVisible E submitSelectors w2")
  from findVisible_found [OF role_lists_nonempty_strings(3) f1] obtain p1 r1 where
    t1: "firstMatchTrace loginSelectors p1 r1"
    and ev1: "events w1 = events w @ map probeEvent p1"
    and c1: "case r1 of None \<Rightarrow> u = [] \<and> list_all (\<lambda>p. \<not> snd p) p1 | Some c \<Rightarrow> u = c \<and> c \<noteq> []"
    by (elim exE conjE)
  from findVisible_found [OF role_lists_nonempty_strings(4) f2] obtain p2 r2 where
    t2: "firstMatchTrace passwordSelectors p2 r2"
    and ev2: "events w2 = events w1 @ map probeEvent p2"
    and c2: "case r2 of None \<Rightarrow> p = [] \<and> list_all (\<lambda>p. \<not> snd p) p2 | Some c \<Rightarrow> p = c \<and> c \<noteq> []"
    by (elim exE conjE)
  from findVisible_found [OF role_lists_nonempty_strings(5) f3] obtain p3 r3 where
    t3: "firstMatchTrace submitSelectors p3 r3"
    and ev3: "events w3 = events w2 @ map probeEvent p3"
    and c3: "case r3 of None \<Rightarrow> s = [] \<and> list_all (\<lambda>p. \<not> snd p) p3 | Some c \<Rightarrow> s = c \<and> c \<noteq> []"
    by (elim exE conjE)
  show ?thesis
  proof (cases r1)
    case None
    with c1 have u: "u = []" and a1: "list_all (\<lambda>p. \<not> snd p) p1" by simp_all
    have "performLogin E cfg w = (Some (Errorf ''could not find username input field''), w1)"
      using f1 u by (simp add: performLogin_def)
    with t1 ev1 None a1 show ?thesis
      by (intro exI [of _ p1] exI [of _ r1] exI [of _ "[]"] exI [of _ None]) simp
  next
    case s1: (Some u')
    with c1 have u: "u = u'" "u \<noteq> []" by simp_all
    show ?thesis
    proof (cases r2)
      case None
      with c2 have p: "p = []" and a2: "list_all (\<lambda>p. \<not> snd p) p2" by simp_all
      have "performLogin E cfg w = (Some (Errorf ''could not find password input field''), w2)"
        using f1 f2 u p by (simp add: performLogin_def)
      with t1 t2 ev1 ev2 s1 None a2 show ?thesis
        by (intro exI [of _ p1] exI [of _ r1] exI [of _ p2] exI [of _ r2]
            exI [of _ "[]"] exI [of _ None]) simp
    next
      case s2: (Some p')
      with c2 have p: "p = p'" "p \<noteq> []" by simp_all
      show ?thesis
      proof (cases r3)
        case None
        with c3 have s: "s = []" and a3: "list_all (\<lambda>p. \<not> snd p) p3" by simp_all
        have "performLogin E cfg w = (Some (Errorf ''could not find submit button''), w3)"
          using f1 f2 f3 u p s by (simp add: performLogin_def)
        with t1 t2 t3 ev1 ev2 ev3 s1 s2 None a3 show ?thesis
          by (intro exI [of _ p1] exI [of _ r1] exI [of _ p2] exI [of _ r2]
              exI [of _ p3] exI [of _ r3] exI [of _ "[]"]) simp
      next
        case s3: (Some s')
        with c3 have s: "s = s'" "s \<noteq> []" by simp_all
        let ?run = "runTasks [SendKeys E u (Username cfg), SendKeys E p (Password cfg), Click E s] w3"
        have out: "performLogin E cfg w = ?run"
          using f1 f2 f3 u p s by (simp add: performLogin_def del: runTasks.simps)
        from login_tasks_events [of E u "Username cfg" p "Password cfg" s w3] obtain acts where
          a: "events (snd ?run) = events w3 @ acts" "acts \<noteq> []"
             "acts = take (length acts) [EvSendKeys u (Username cfg), EvSendKeys p (Password cfg), EvClick s]"
             "fst ?run = None \<longrightarrow> length acts = 3"
             "fst ?run = None \<or> (\<exists>m. fst ?run = Some (EngineError m))"
          by (elim exE conjE)
        from a(1) ev1 ev2 ev3
        have "events (snd (performLogin E cfg w)) = events w @ map probeEvent (p1 @ p2 @ p3) @ acts"
          unfolding out by simp
        with t1 t2 t3 s1 s2 s3 a(2-5) u p s show ?thesis
          unfolding out
          by (intro exI [of _ p1] exI [of _ r1] exI [of _ p2] exI [of _ r2]
              exI [of _ p3] exI [of _ r3] exI [of _ acts]) simp
      qed
    qed
  qed
qed

lemma stepShots_EngineError: "stepShots (EngineError m) = []"
  by (simp add: stepShots_def)

lemma stepSummaryI:
  assumes "\<And>w. \<exists>new. events (snd (a w)) = events w @ new \<and>
        (case fst (a w) of
           None \<Rightarrow> screenshots new = []
         | Some e \<Rightarrow> isStepError e \<and> screenshots new = stepShots e)"
  shows "stepSummary a"
  using assms unfolding stepSummary_def by blast

lemma stepSummary_simple:
  assumes ev: "\<And>w. events (snd (a w)) = events w @ [x]"
    and res: "\<And>w. fst (a w) = None \<or> (\<exists>m. fst (a w) = Some (EngineError m))"
    and x: "screenshots [x] = []"
  shows "stepSummary a"
proof (rule stepSummaryI)
  fix w
  from res [of w] x have "case fst (a w) of
           None \<Rightarrow> screenshots [x] = []
         | Some e \<Rightarrow> isStepError e \<and> screenshots [x] = stepShots e"
    by (auto simp: stepShots_EngineError)
  with ev [of w] show "\<exists>new. events (snd (a w)) = events w @ new \<and>
        (case fst (a w) of
           None \<Rightarrow> screenshots new = []
         | Some e \<Rightarrow> isStepError e \<and> screenshots new = stepShots e)"
    by blast
qed

lemma stepSummary_Navigate: "stepSummary (Navigate E url)"
  by (rule stepSummary_simple [OF Navigate_events Navigate_result]) simp

lemma stepSummary_WaitVisible: "stepSummary (WaitVisible E sel)"
proof (rule stepSummaryI)
  fix w
  let ?new = "[probeEvent (sel, fst (WaitVisible E sel w) = None)]"
  from WaitVisible_result [of E sel w]
  have "case fst (WaitVisible E sel w) of
           None \<Rightarrow> screenshots ?new = []
         | Some e \<Rightarrow> isStepError e \<and> screenshots ?new = stepShots e"
    by (auto simp: stepShots_EngineError probeEvent_def)
  with WaitVisible_events [of E sel w]
  show "\<exists>new. events (snd (WaitVisible E sel w)) = events w @ new \<and>
        (case fst (WaitVisible E sel w) of
           None \<Rightarrow> screenshots new = []
         | Some e \<Rightarrow> isStepError e \<and> screenshots new = stepShots e)"
    by blast
qed

lemma stepSummary_Sleep: "stepSummary (Sleep E n)"
  by (rule stepSummary_simple [OF Sleep_events Sleep_result]) simp

lemma stepSummary_scrapeAccounts: "stepSummary (scrapeAccounts E)"
proof (rule stepSummaryI)
  fix w
  obtain ig w1 where sl: "Sleep E 3 w = (ig, w1)" by (cases "Sleep E 3 w")
  obtain r w2 where oh: "OuterHTML E ''html'' w1 = (r, w2)" by (cases "OuterHTML E ''html'' w1")
  have ev1: "events w1 = events w @ [EvSleep 3]"
    using Sleep_events [of E 3 w] sl by simp
  have ev2: "events w2 = events w1 @ [EvOuterHTML ''html'']"
    using OuterHTML_events [of E "''html''" w1] oh by simp
  have "events (snd (scrapeAccounts E w)) = events w @ [EvSleep 3, EvOuterHTML ''html'']"
    using sl oh ev1 ev2 by (simp add: scrapeAccounts_def extractAccountsGeneric_def)
  moreover have "fst (scrapeAccounts E w) = None"
    by (simp add: scrapeAccounts_def Let_def split: prod.splits)
  ultimately show "\<exists>new. events (snd (scrapeAccounts E w)) = events w @ new \<and>
        (case fst (scrapeAccounts E w) of
           None \<Rightarrow> screenshots new = []
         | Some e \<Rightarrow> isStepError e \<and> screenshots new = stepShots e)"
    by (intro exI [of _ "[EvSleep 3, EvOuterHTML ''html'']"]) simp
qed

lemma stepSummary_clickLoginButton: "stepSummary (clickLoginButton E)"
proof (rule stepSummaryI)
  fix w
  from clickLoginButton_events [of E w] obtain ps r where
    ev: "events (snd (clickLoginButton E w))
         = events w @ map probeEvent ps
           @ (case r of None \<Rightarrow> [EvScreenshot ''login_button_not_found''] | Some c \<Rightarrow> [EvClick c])"
    and rn: "r = None \<longleftrightarrow> fst (clickLoginButton E w) = Some (Errorf ''could not find login button'')"
    and ok: "r \<noteq> None \<longrightarrow> fst (clickLoginButton E w) = None
                      \<or> (\<exists>m. fst (clickLoginButton E w) = Some (EngineError m))"
    by (elim exE conjE)
  let ?new = "map probeEvent ps
           @ (case r of None \<Rightarrow> [EvScreenshot ''login_button_not_found''] | Some c \<Rightarrow> [EvClick c])"
  have "case fst (clickLoginButton E w) of
           None \<Rightarrow> screenshots ?new = []
         | Some e \<Rightarrow> isStepError e \<and> screenshots ?new = stepShots e"
  proof (cases r)
    case None
    with rn show ?thesis
      by (simp add: screenshots_append screenshots_probeEvents stepShots_def notFoundMessages_def)
  next
    case (Some c)
    with ok show ?thesis
      by (auto simp: screenshots_append screenshots_probeEvents stepShots_EngineError)
  qed
  with ev show "\<exists>new. events (snd (clickLoginButton E w)) = events w @ new \<and>
        (case fst (clickLoginButton E w) of
           None \<Rightarrow> screenshots new = []
         | Some e \<Rightarrow> isStepError e \<and> screenshots new = stepShots e)"
    by blast
qed

lemma stepSummary_selectInternetBanking: "stepSummary (selectInternetBanking E)"
proof (rule stepSummaryI)
  fix w
  from selectInternetBanking_events [of E w] obtain ps r where
    ev: "events (snd (selectInternetBanking E w))
         = events w @ [EvSleep 1] @ map probeEvent ps
           @ (case r of None \<Rightarrow> [EvScreenshot ''internet_banking_not_found''] | Some c \<Rightarrow> [EvClick c])"
    and rn: "r = None \<longleftrightarrow> fst (selectInternetBanking E w)
                          = Some (Errorf ''could not find Internet Banking link in dropdown'')"
    and ok: "r \<noteq> None \<longrightarrow> fst (selectInternetBanking E w) = None
                      \<or> (\<exists>m. fst (selectInternetBanking E w) = Some (EngineError m))"
    by (elim exE conjE)
  let ?new = "[EvSleep 1] @ map probeEvent ps
           @ (case r of None \<Rightarrow> [EvScreenshot ''internet_banking_not_found''] | Some c \<Rightarrow> [EvClick c])"
  have "case fst (selectInternetBanking E w) of
           None \<Rightarrow> screenshots ?new = []
         | Some e \<Rightarrow> isStepError e \<and> screenshots ?new = stepShots e"
  proof (cases r)
    case None
    with rn show ?thesis
      by (simp add: screenshots_append screenshots_probeEvents stepShots_def notFoundMessages_def)
  next
    case (Some c)
    with ok show ?thesis
      by (auto simp: screenshots_append screenshots_probeEvents stepShots_EngineError)
  qed
  with ev show "\<exists>new. events (snd (selectInternetBanking E w)) = events w @ new \<and>
        (case fst (selectInternetBanking E w) of
           None \<Rightarrow> screenshots new = []
         | Some e \<Rightarrow> isStepError e \<and> screenshots new = stepShots e)"
    by blast
qed

lemma performLogin_no_screenshot:
  "\<exists>new. events (snd (performLogin E cfg w)) = events w @ new \<and> screenshots new = []
     \<and> (list_all (\<lambda>p. \<not> snd p) (probes new) \<longrightarrow>
          fst (performLogin E cfg w) = Some (Errorf ''could not find username input field''))
     \<and> (fst (performLogin E cfg w) = None
          \<or> (\<exists>m. fst (performLogin E cfg w) = Some (EngineError m))
          \<or> fst (performLogin E cfg w) = Some (Errorf ''could not find username input field'')
          \<or> fst (performLogin E cfg w) = Some (Errorf ''could not find password input field'')
          \<or> fst (performLogin E cfg w) = Some (Errorf ''could not find submit button''))"
proof -
  from performLogin_events [of E cfg w] obtain p1 r1 p2 r2 p3 r3 acts where
    ev: "events (snd (performLogin E cfg w)) = events w @ map probeEvent (p1 @ p2 @ p3) @ acts"
    and t1: "firstMatchTrace loginSelectors p1 r1"
    and c: "case r1 of
          None \<Rightarrow> p2 = [] \<and> p3 = [] \<and> acts = [] \<and> list_all (\<lambda>p. \<not> snd p) p1
                 \<and> fst (performLogin E cfg w) = Some (Errorf ''could not find username input field'')
        | Some u \<Rightarrow> firstMatchTrace passwordSelectors p2 r2
            \<and> (case r2 of
                 None \<Rightarrow> p3 = [] \<and> acts = [] \<and> list_all (\<lambda>p. \<not> snd p) p2
                        \<and> fst (performLogin E cfg w) = Some (Errorf ''could not find password input field'')
               | Some p \<Rightarrow> firstMatchTrace submitSelectors p3 r3
                   \<and> (case r3 of
                        None \<Rightarrow> acts = [] \<and> list_all (\<lambda>p. \<not> snd p) p3
                               \<and> fst (performLogin E cfg w) = Some (Errorf ''could not find submit button'')
                      | Some s \<Rightarrow> acts \<noteq> []
                          \<and> acts = take (length acts)
                               [EvSendKeys u (Username cfg), EvSendKeys p (Password cfg), EvClick s]
                          \<and> (fst (performLogin E cfg w) = None \<longrightarrow> length acts = 3)
                          \<and> (fst (performLogin E cfg w) = None
                               \<or> (\<exists>m. fst (performLogin E cfg w) = Some (EngineError m)))))"
    by (elim exE conjE)
  let ?new = "map probeEvent (p1 @ p2 @ p3) @ acts"
  have acts: "screenshots acts = [] \<and> probes acts = []"
  proof (cases r1)
    case None
    with c show ?thesis by simp
  next
    case s1: (Some u)
    show ?thesis
    proof (cases r2)
      case None
      with c s1 show ?thesis by simp
    next
      case s2: (Some p)
      show ?thesis
      proof (cases r3)
        case None
        with c s1 s2 show ?thesis by simp
      next
        case s3: (Some s)
        with c s1 s2 have "acts = take (length acts)
                               [EvSendKeys u (Username cfg), EvSendKeys p (Password cfg), EvClick s]"
          by simp
        then obtain n where "acts = take n [EvSendKeys u (Username cfg), EvSendKeys p (Password cfg), EvClick s]"
          ..
        then show ?thesis by (simp add: take_Cons')
      qed
    qed
  qed
  have shots: "screenshots ?new = []"
    using acts by (simp add: screenshots_append screenshots_probeEvents del: map_append)
  have pr: "probes ?new = p1 @ p2 @ p3"
    using acts by (simp add: probes_append probes_probeEvents del: map_append)
  have allfail: "fst (performLogin E cfg w) = Some (Errorf ''could not find username input field'')"
    if "list_all (\<lambda>p. \<not> snd p) (probes ?new)"
  proof (cases r1)
    case None
    with c show ?thesis by simp
  next
    case (Some u)
    with firstMatchTrace_meaning [OF t1] have "p1 \<noteq> []" "last p1 = (u, True)" by simp_all
    then have mem: "(u, True) \<in> set p1" by (metis last_in_set)
    from that pr have "\<forall>p \<in> set p1. \<not> snd p" by (simp add: list_all_iff)
    with mem have False by fastforce
    then show ?thesis ..
  qed
  have kinds: "fst (performLogin E cfg w) = None
          \<or> (\<exists>m. fst (performLogin E cfg w) = Some (EngineError m))
          \<or> fst (performLogin E cfg w) = Some (Errorf ''could not find username input field'')
          \<or> fst (performLogin E cfg w) = Some (Errorf ''could not find password input field'')
          \<or> fst (performLogin E cfg w) = Some (Errorf ''could not find submit button'')"
    using c by (auto split: option.splits)
  from ev shots allfail kinds show ?thesis by blast
qed

lemma stepSummary_performLogin: "stepSummary (performLogin E cfg)"
proof (rule stepSummaryI)
  fix w
  from performLogin_no_screenshot [of E cfg w] obtain new where
    ev: "events (snd (performLogin E cfg w)) = events w @ new" and sh: "screenshots new = []"
    and kinds: "fst (performLogin E cfg w) = None
          \<or> (\<exists>m. fst (performLogin E cfg w) = Some (EngineError m))
          \<or> fst (performLogin E cfg w) = Some (Errorf ''could not find username input field'')
          \<or> fst (performLogin E cfg w) = Some (Errorf ''could not find password input field'')
          \<or> fst (performLogin E cfg w) = Some (Errorf ''could not find submit button'')"
    by (elim exE conjE)
  from kinds sh have "case fst (performLogin E cfg w) of
           None \<Rightarrow> screenshots new = []
         | Some e \<Rightarrow> isStepError e \<and> screenshots new = stepShots e"
    by (auto simp: stepShots_def notFoundMessages_def)
  with ev show "\<exists>new. events (snd (performLogin E cfg w)) = events w @ new \<and>
        (case fst (performLogin E cfg w) of
           None \<Rightarrow> screenshots new = []
         | Some e \<Rightarrow> isStepError e \<and> screenshots new = stepShots e)"
    by blast
qed

lemma stepSummary_runTasks: "list_all stepSummary as \<Longrightarrow> stepSummary (runTasks as)"
proof (induction as)
  case Nil
  show ?case by (rule stepSummaryI) simp
next
  case (Cons a as)
  then have a: "stepSummary a" and rest: "stepSummary (runTasks as)" by simp_all
  show ?case
  proof (rule stepSummaryI)
    fix w
    obtain e w1 where aw: "a w = (e, w1)" by (cases "a w")
    from a [unfolded stepSummary_def, rule_format, of w] aw obtain new1 where
      ev1: "events w1 = events w @ new1"
      and c1: "case e of None \<Rightarrow> screenshots new1 = []
               | Some x \<Rightarrow> isStepError x \<and> screenshots new1 = stepShots x"
      by auto
    show "\<exists>new. events (snd (runTasks (a # as) w)) = events w @ new \<and>
        (case fst (runTasks (a # as) w) of
           None \<Rightarrow> screenshots new = []
         | Some e \<Rightarrow> isStepError e \<and> screenshots new = stepShots e)"
    proof (cases e)
      case (Some x)
      with aw have "runTasks (a # as) w = (Some x, w1)" by simp
      with ev1 c1 Some show ?thesis by auto
    next
      case None
      with aw have out: "runTasks (a # as) w = runTasks as w1" by simp
      from rest [unfolded stepSummary_def, rule_format, of w1] obtain new2 where
        ev2: "events (snd (runTasks as w1)) = events w1 @ new2"
        and c2: "case fst (runTasks as w1) of None \<Rightarrow> screenshots new2 = []
               | Some x \<Rightarrow> isStepError x \<and> screenshots new2 = stepShots x"
        by auto
      from c1 None have s1: "screenshots new1 = []" by simp
      have "events (snd (runTasks (a # as) w)) = events w @ (new1 @ new2)"
        using out ev1 ev2 by simp
      moreover have "case fst (runTasks (a # as) w) of None \<Rightarrow> screenshots (new1 @ new2) = []
               | Some x \<Rightarrow> isStepError x \<and> screenshots (new1 @ new2) = stepShots x"
        using c2 s1 unfolding out by (auto simp: screenshots_append split: option.splits)
      ultimately show ?thesis by blast
    qed
  qed
qed

lemma GetAccounts_summary:
  "\<exists>new. events (snd (NABClient_GetAccounts E cfg w)) = events w @ new \<and>
     (case fst (NABClient_GetAccounts E cfg w) of
        Inr accounts \<Rightarrow> screenshots new = []
      | Inl e \<Rightarrow> \<exists>cause. e = Wrapped ''failed to scrape NAB accounts: '' cause \<and> isStepError cause
                  \<and> screenshots new = stepShots cause @ [''error''])"
proof -
  let ?tasks = "[Navigate E (BaseURL cfg), WaitVisible E ''body'', clickLoginButton E,
              selectInternetBanking E, performLogin E cfg, WaitVisible E ''body'',
              Sleep E 3, scrapeAccounts E]"
  let ?w0 = "w\<lparr>accountsVar := []\<rparr>"
  have "list_all stepSummary ?tasks"
    by (simp add: stepSummary_Navigate stepSummary_WaitVisible stepSummary_clickLoginButton
        stepSummary_selectInternetBanking stepSummary_performLogin stepSummary_Sleep
        stepSummary_scrapeAccounts)
  then have "stepSummary (runTasks ?tasks)" by (rule stepSummary_runTasks)
  from this [unfolded stepSummary_def, rule_format, of ?w0] obtain new where
    ev: "events (snd (runTasks ?tasks ?w0)) = events w @ new"
    and c: "case fst (runTasks ?tasks ?w0) of None \<Rightarrow> screenshots new = []
               | Some x \<Rightarrow> isStepError x \<and> screenshots new = stepShots x"
    by auto
  obtain r w' where run: "runTasks ?tasks ?w0 = (r, w')" by (cases "runTasks ?tasks ?w0")
  show ?thesis
  proof (cases r)
    case None
    with run have "NABClient_GetAccounts E cfg w = (Inr (accountsVar w'), w')"
      by (simp add: NABClient_GetAccounts_def del: runTasks.simps)
    with ev c run None show ?thesis by auto
  next
    case (Some x)
    with run have out: "NABClient_GetAccounts E cfg w
        = (Inl (Wrapped ''failed to scrape NAB accounts: '' x), takeScreenshot E ''error'' w')"
      by (simp add: NABClient_GetAccounts_def del: runTasks.simps)
    have "events (snd (NABClient_GetAccounts E cfg w)) = events w @ (new @ [EvScreenshot ''error''])"
      using out ev run by (simp add: takeScreenshot_events)
    moreover have "screenshots (new @ [EvScreenshot ''error'']) = stepShots x @ [''error'']"
      using c run Some by (simp add: screenshots_append)
    moreover have "isStepError x" using c run Some by simp
    ultimately show ?thesis using out by auto
  qed
qed

text \<open>
  Claim C1. Both resolution loops, on any list of candidates, any engine and any state,
  leave a record of probes that follows the contract \<open>firstMatchTrace\<close>: the probed
  selectors are a prefix of the list in its order, every probe but the last has failed,
  and the match is the candidate of the last probe when that probe succeeded; after it no
  further candidate is probed, the clicking loop clicks that candidate, and the finding
  loop returns it. Without a match every candidate has been probed and has failed. The
  five roles run these loops on their lists: the login button and the Internet Banking
  link in the clicking loop, the username, password and submit fields one after the other
  in \<^verbatim>\<open>performLogin\<close>, each only when the role before it has a match.
\<close>

theorem resolution_first_listed_first_matched:
  "(\<exists>ps r. firstMatchTrace cs ps r
      \<and> events (snd (clickFirstVisible E cs w))
          = events w @ map probeEvent ps @ (case r of None \<Rightarrow> [] | Some c \<Rightarrow> [EvClick c])
      \<and> (r = None \<longleftrightarrow> fst (clickFirstVisible E cs w) = None))
   \<and> (\<exists>ps r. firstMatchTrace cs ps r
      \<and> events (snd (findVisible E cs w)) = events w @ map probeEvent ps
      \<and> fst (findVisible E cs w) = (case r of None \<Rightarrow> [] | Some c \<Rightarrow> c))
   \<and> (\<forall>ps r. firstMatchTrace cs ps r \<longrightarrow>
         map fst ps = take (length ps) cs
       \<and> list_all (\<lambda>p. \<not> snd p) (butlast ps)
       \<and> (case r of None \<Rightarrow> length ps = length cs \<and> list_all (\<lambda>p. \<not> snd p) ps
           | Some c \<Rightarrow> ps \<noteq> [] \<and> last ps = (c, True)))
   \<and> (\<exists>ps r. firstMatchTrace loginButtonSelectors ps r
      \<and> events (snd (clickLoginButton E w))
          = events w @ map probeEvent ps
            @ (case r of None \<Rightarrow> [EvScreenshot ''login_button_not_found''] | Some c \<Rightarrow> [EvClick c]))
   \<and> (\<exists>ps r. firstMatchTrace internetBankingSelectors ps r
      \<and> events (snd (selectInternetBanking E w))
          = events w @ [EvSleep 1] @ map probeEvent ps
            @ (case r of None \<Rightarrow> [EvScreenshot ''internet_banking_not_found''] | Some c \<Rightarrow> [EvClick c]))
   \<and> (\<exists>p1 r1 p2 r2 p3 r3 acts.
        events (snd (performLogin E cfg w)) = events w @ map probeEvent (p1 @ p2 @ p3) @ acts
      \<and> firstMatchTrace loginSelectors p1 r1
      \<and> (case r1 of
           None \<Rightarrow> p2 = [] \<and> p3 = [] \<and> acts = []
         | Some u \<Rightarrow> firstMatchTrace passwordSelectors p2 r2
             \<and> (case r2 of
                  None \<Rightarrow> p3 = [] \<and> acts = []
                | Some p \<Rightarrow> firstMatchTrace submitSelectors p3 r3
                    \<and> (case r3 of
                         None \<Rightarrow> acts = []
                       | Some s \<Rightarrow> acts \<noteq> []
                           \<and> acts = take (length acts)
                                [EvSendKeys u (Username cfg), EvSendKeys p (Password cfg), EvClick s]))))"
proof (intro conjI)
  from clickFirstVisible_events [of cs E w] obtain ps r where
    "firstMatchTrace cs ps r"
    "events (snd (clickFirstVisible E cs w))
          = events w @ map probeEvent ps @ (case r of None \<Rightarrow> [] | Some c \<Rightarrow> [EvClick c])"
    "r = None \<longleftrightarrow> fst (clickFirstVisible E cs w) = None"
    by (elim exE conjE)
  then show "\<exists>ps r. firstMatchTrace cs ps r
      \<and> events (snd (clickFirstVisible E cs w))
          = events w @ map probeEvent ps @ (case r of None \<Rightarrow> [] | Some c \<Rightarrow> [EvClick c])
      \<and> (r = None \<longleftrightarrow> fst (clickFirstVisible E cs w) = None)"
    by (intro exI [of _ ps] exI [of _ r] conjI)
  from findVisible_events [of cs E w] obtain ps r where
    "firstMatchTrace cs ps r"
    "events (snd (findVisible E cs w)) = events w @ map probeEvent ps"
    "fst (findVisible E cs w) = (case r of None \<Rightarrow> [] | Some c \<Rightarrow> c)"
    by (elim exE conjE)
  then show "\<exists>ps r. firstMatchTrace cs ps r
      \<and> events (snd (findVisible E cs w)) = events w @ map probeEvent ps
      \<and> fst (findVisible E cs w) = (case r of None \<Rightarrow> [] | Some c \<Rightarrow> c)"
    by (intro exI [of _ ps] exI [of _ r] conjI)
  show "\<forall>ps r. firstMatchTrace cs ps r \<longrightarrow>
         map fst ps = take (length ps) cs
       \<and> list_all (\<lambda>p. \<not> snd p) (butlast ps)
       \<and> (case r of None \<Rightarrow> length ps = length cs \<and> list_all (\<lambda>p. \<not> snd p) ps
           | Some c \<Rightarrow> ps \<noteq> [] \<and> last ps = (c, True))"
    using firstMatchTrace_meaning by blast
  from clickLoginButton_events [of E w] obtain ps r where
    "firstMatchTrace loginButtonSelectors ps r"
    "events (snd (clickLoginButton E w))
          = events w @ map probeEvent ps
            @ (case r of None \<Rightarrow> [EvScreenshot ''login_button_not_found''] | Some c \<Rightarrow> [EvClick c])"
    by (elim exE conjE)
  then show "\<exists>ps r. firstMatchTrace loginButtonSelectors ps r
      \<and> events (snd (clickLoginButton E w))
          = events w @ map probeEvent ps
            @ (case r of None \<Rightarrow> [EvScreenshot ''login_button_not_found''] | Some c \<Rightarrow> [EvClick c])"
    by (intro exI [of _ ps] exI [of _ r] conjI)
  from selectInternetBanking_events [of E w] obtain ps r where
    "firstMatchTrace internetBankingSelectors ps r"
    "events (snd (selectInternetBanking E w))
          = events w @ [EvSleep 1] @ map probeEvent ps
            @ (case r of None \<Rightarrow> [EvScreenshot ''internet_banking_not_found''] | Some c \<Rightarrow> [EvClick c])"
    by (elim exE conjE)
  then show "\<exists>ps r. firstMatchTrace internetBankingSelectors ps r
      \<and> events (snd (selectInternetBanking E w))
          = events w @ [EvSleep 1] @ map probeEvent ps
            @ (case r of None \<Rightarrow> [EvScreenshot ''internet_banking_not_found''] | Some c \<Rightarrow> [EvClick c])"
    by (intro exI [of _ ps] exI [of _ r] conjI)
  from performLogin_events [of E cfg w] obtain p1 r1 p2 r2 p3 r3 acts where
    ev: "events (snd (performLogin E cfg w)) = events w @ map probeEvent (p1 @ p2 @ p3) @ acts"
    and t1: "firstMatchTrace loginSelectors p1 r1"
    and c: "case r1 of
          None \<Rightarrow> p2 = [] \<and> p3 = [] \<and> acts = [] \<and> list_all (\<lambda>p. \<not> snd p) p1
                 \<and> fst (performLogin E cfg w) = Some (Errorf ''could not find username input field'')
        | Some u \<Rightarrow> firstMatchTrace passwordSelectors p2 r2
            \<and> (case r2 of
                 None \<Rightarrow> p3 = [] \<and> acts = [] \<and> list_all (\<lambda>p. \<not> snd p) p2
                        \<and> fst (performLogin E cfg w) = Some (Errorf ''could not find password input field'')
               | Some p \<Rightarrow> firstMatchTrace submitSelectors p3 r3
                   \<and> (case r3 of
                        None \<Rightarrow> acts = [] \<and> list_all (\<lambda>p. \<not> snd p) p3
                               \<and> fst (performLogin E cfg w) = Some (Errorf ''could not find submit button'')
                      | Some s \<Rightarrow> acts \<noteq> []
                          \<and> acts = take (length acts)
                               [EvSendKeys u (Username cfg), EvSendKeys p (Password cfg), EvClick s]
                          \<and> (fst (performLogin E cfg w) = None \<longrightarrow> length acts = 3)
                          \<and> (fst (performLogin E cfg w) = None
                               \<or> (\<exists>m. fst (performLogin E cfg w) = Some (EngineError m)))))"
    by (elim exE conjE)
  have "case r1 of
           None \<Rightarrow> p2 = [] \<and> p3 = [] \<and> acts = []
         | Some u \<Rightarrow> firstMatchTrace passwordSelectors p2 r2
             \<and> (case r2 of
                  None \<Rightarrow> p3 = [] \<and> acts = []
                | Some p \<Rightarrow> firstMatchTrace submitSelectors p3 r3
                    \<and> (case r3 of
                         None \<Rightarrow> acts = []
                       | Some s \<Rightarrow> acts \<noteq> []
                           \<and> acts = take (length acts)
                                [EvSendKeys u (Username cfg), EvSendKeys p (Password cfg), EvClick s]))"
    using c by (simp split: option.splits)
  with ev t1
  show "\<exists>p1 r1 p2 r2 p3 r3 acts.
        events (snd (performLogin E cfg w)) = events w @ map probeEvent (p1 @ p2 @ p3) @ acts
      \<and> firstMatchTrace loginSelectors p1 r1
      \<and> (case r1 of
           None \<Rightarrow> p2 = [] \<and> p3 = [] \<and> acts = []
         | Some u \<Rightarrow> firstMatchTrace passwordSelectors p2 r2
             \<and> (case r2 of
                  None \<Rightarrow> p3 = [] \<and> acts = []
                | Some p \<Rightarrow> firstMatchTrace submitSelectors p3 r3
                    \<and> (case r3 of
                         None \<Rightarrow> acts = []
                       | Some s \<Rightarrow> acts \<noteq> []
                           \<and> acts = take (length acts)
                                [EvSendKeys u (Username cfg), EvSendKeys p (Password cfg), EvClick s])))"
    by (intro exI [of _ p1] exI [of _ r1] exI [of _ p2] exI [of _ r2] exI [of _ p3]
        exI [of _ r3] exI [of _ acts] conjI)
qed

theorem resolution_first_listed_first_matched_witness:
  "firstMatchTrace loginSelectors
     [(''input[name=\"userid\"]'', False), (''input[id=\"userid\"]'', True)]
     (Some ''input[id=\"userid\"]'')
   \<and> map fst [(''input[name=\"userid\"]'', False), (''input[id=\"userid\"]'', True)]
       = take 2 loginSelectors
   \<and> last [(''input[name=\"userid\"]'', False), (''input[id=\"userid\"]'', True)]
       = (''input[id=\"userid\"]'', True)
   \<and> findVisible sampleEngine loginSelectors startWorld
       = (''input[id=\"userid\"]'',
          \<lparr>browser = (),
           events = [EvWaitVisible ''input[name=\"userid\"]'' False,
                     EvWaitVisible ''input[id=\"userid\"]'' True],
           accountsVar = []\<rparr>)"
proof -
  let ?ps = "[(''input[name=\"userid\"]'', False), (''input[id=\"userid\"]'', True)]"
  let ?r = "Some ''input[id=\"userid\"]''"
  note T = resolution_first_listed_first_matched [of loginSelectors sampleEngine startWorld sampleConfig]
  have t: "firstMatchTrace loginSelectors ?ps ?r"
    by (simp add: loginSelectors_def)
  from T have "\<forall>ps r. firstMatchTrace loginSelectors ps r \<longrightarrow>
         map fst ps = take (length ps) loginSelectors
       \<and> list_all (\<lambda>p. \<not> snd p) (butlast ps)
       \<and> (case r of None \<Rightarrow> length ps = length loginSelectors \<and> list_all (\<lambda>p. \<not> snd p) ps
           | Some c \<Rightarrow> ps \<noteq> [] \<and> last ps = (c, True))"
    by (elim conjE)
  from this [rule_format, OF t]
  have m: "map fst ?ps = take 2 loginSelectors" "last ?ps = (''input[id=\"userid\"]'', True)"
    by (simp_all add: numeral_2_eq_2)
  have run: "findVisible sampleEngine loginSelectors startWorld
       = (''input[id=\"userid\"]'',
          \<lparr>browser = (),
           events = [EvWaitVisible ''input[name=\"userid\"]'' False,
                     EvWaitVisible ''input[id=\"userid\"]'' True],
           accountsVar = []\<rparr>)"
    by (simp add: loginSelectors_def WaitVisible_def sampleEngine_def startWorld_def
        loginButtonSelectors_def internetBankingSelectors_def passwordSelectors_def
        submitSelectors_def)
  from t m run show ?thesis by (intro conjI)
qed






lemmas selector_defs =
  loginButtonSelectors_def internetBankingSelectors_def loginSelectors_def
  passwordSelectors_def submitSelectors_def

lemmas action_defs =
  Navigate_def WaitVisible_def Click_def SendKeys_def Sleep_def OuterHTML_def
  takeScreenshot_def clickLoginButton_def selectInternetBanking_def performLogin_def
  scrapeAccounts_def extractAccountsGeneric_def




lemma blank_GetAccounts:
  "NABClient_GetAccounts blankPageEngine sampleConfig startWorld
     = (Inl (Wrapped ''failed to scrape NAB accounts: '' (Errorf ''could not find login button'')),
        \<lparr>browser = (),
         events = [EvNavigate ''https://www.nab.com.au'', EvWaitVisible ''body'' True]
                  @ map probeEvent (map (\<lambda>c. (c, False)) loginButtonSelectors)
                  @ [EvScreenshot ''login_button_not_found'', EvScreenshot ''error''],
         accountsVar = []\<rparr>)"
  by (simp add: NABClient_GetAccounts_def action_defs selector_defs blankPageEngine_def
      startWorld_def sampleConfig_def probeEvent_def)

lemma dead_GetAccounts:
  "NABClient_GetAccounts deadEngine sampleConfig startWorld
     = (Inl (Wrapped ''failed to scrape NAB accounts: '' (EngineError ''net::ERR_NAME_NOT_RESOLVED'')),
        \<lparr>browser = (),
         events = [EvNavigate ''https://www.nab.com.au'', EvScreenshot ''error''],
         accountsVar = []\<rparr>)"
  by (simp add: NABClient_GetAccounts_def action_defs deadEngine_def
      startWorld_def sampleConfig_def)






text \<open>
  Claim C2, amended. Every failure of \<^verbatim>\<open>GetAccounts\<close> is returned as one generic error that
  wraps the error of the failed step (an error of the engine, or one of the five messages
  that name a role). It is none of the sentinels of the service, so both handlers answer
  it with status 500 and the error type \<open>INTERNAL_ERROR\<close>.
\<close>

theorem GetAccounts_failure_is_wrapped:
  "fst (NABClient_GetAccounts E cfg w) = Inl e \<longrightarrow>
     (\<exists>cause. e = Wrapped ''failed to scrape NAB accounts: '' cause \<and> isStepError cause)
     \<and> e \<noteq> ErrAccountNotFound \<and> e \<noteq> ErrServiceUnavailable \<and> e \<noteq> ErrAuthenticationFailed
     \<and> fst (handler_ListAccounts (NewNABClient E cfg) now \<lparr>client = w, calls = cs\<rparr>)
         = ErrorResponse 500 ErrorTypeInternalError
     \<and> (accountID \<noteq> [] \<longrightarrow>
          fst (handler_GetAccount (NewNABClient E cfg) now accountID \<lparr>client = w, calls = cs\<rparr>)
            = ErrorResponse 500 ErrorTypeInternalError)"
proof (intro impI)
  assume f: "fst (NABClient_GetAccounts E cfg w) = Inl e"
  from GetAccounts_summary [of E cfg w] f obtain cause where
    e: "e = Wrapped ''failed to scrape NAB accounts: '' cause" and cause: "isStepError cause"
    by auto
  obtain w' where run: "NABClient_GetAccounts E cfg w = (Inl e, w')"
    using f by (cases "NABClient_GetAccounts E cfg w") simp
  have call: "callGetAccounts (NewNABClient E cfg) \<lparr>client = w, calls = cs\<rparr>
      = (Inl e, \<lparr>client = w', calls = cs @ [CallGetAccounts]\<rparr>)"
    using run by (simp add: callGetAccounts_def NewNABClient_def)
  have l: "fst (handler_ListAccounts (NewNABClient E cfg) now \<lparr>client = w, calls = cs\<rparr>)
         = ErrorResponse 500 ErrorTypeInternalError"
    using call by (simp add: handler_ListAccounts_def GetAllAccounts_def)
  have g: "fst (handler_GetAccount (NewNABClient E cfg) now accountID \<lparr>client = w, calls = cs\<rparr>)
            = ErrorResponse 500 ErrorTypeInternalError" if "accountID \<noteq> []"
    using call that e by (simp add: handler_GetAccount_def GetAccountDetails_def)
  from e cause l g
  show "(\<exists>cause. e = Wrapped ''failed to scrape NAB accounts: '' cause \<and> isStepError cause)
     \<and> e \<noteq> ErrAccountNotFound \<and> e \<noteq> ErrServiceUnavailable \<and> e \<noteq> ErrAuthenticationFailed
     \<and> fst (handler_ListAccounts (NewNABClient E cfg) now \<lparr>client = w, calls = cs\<rparr>)
         = ErrorResponse 500 ErrorTypeInternalError
     \<and> (accountID \<noteq> [] \<longrightarrow>
          fst (handler_GetAccount (NewNABClient E cfg) now accountID \<lparr>client = w, calls = cs\<rparr>)
            = ErrorResponse 500 ErrorTypeInternalError)"
    by auto
qed

theorem GetAccounts_failure_is_wrapped_witness:
  "fst (NABClient_GetAccounts blankPageEngine sampleConfig startWorld)
     = Inl (Wrapped ''failed to scrape NAB accounts: '' (Errorf ''could not find login button''))
   \<and> isStepError (Errorf ''could not find login button'')
   \<and> fst (handler_ListAccounts (NewNABClient blankPageEngine sampleConfig) 0
            \<lparr>client = startWorld, calls = []\<rparr>)
       = ErrorResponse 500 ''INTERNAL_ERROR''
   \<and> fst (handler_GetAccount (NewNABClient blankPageEngine sampleConfig) 0 ''account_1''
            \<lparr>client = startWorld, calls = []\<rparr>)
       = ErrorResponse 500 ''INTERNAL_ERROR''"
proof -
  let ?e = "Wrapped ''failed to scrape NAB accounts: '' (Errorf ''could not find login button'')"
  have f: "fst (NABClient_GetAccounts blankPageEngine sampleConfig startWorld) = Inl ?e"
    by (simp add: blank_GetAccounts)
  have ne: "''account_1'' \<noteq> []" by simp
  from GetAccounts_failure_is_wrapped
         [where E = blankPageEngine and cfg = sampleConfig and w = startWorld and e = ?e
            and now = 0 and cs = "[]" and accountID = "''account_1''"] f ne
  have "fst (handler_ListAccounts (NewNABClient blankPageEngine sampleConfig) 0
            \<lparr>client = startWorld, calls = []\<rparr>)
       = ErrorResponse 500 ErrorTypeInternalError"
    and "fst (handler_GetAccount (NewNABClient blankPageEngine sampleConfig) 0 ''account_1''
            \<lparr>client = startWorld, calls = []\<rparr>)
       = ErrorResponse 500 ErrorTypeInternalError"
    by blast+
  with f show ?thesis
    by (simp add: ErrorTypeInternalError_def notFoundMessages_def)
qed

text \<open>
  Claim C2, as it stands, fails: when the site cannot be loaded, \<^verbatim>\<open>GetAccounts\<close> returns the
  engine's error wrapped in a generic one, which is none of the declared kinds, and the
  handler answers with the internal-error response.
\<close>

theorem failure_not_classified:
  "fst (NABClient_GetAccounts deadEngine sampleConfig startWorld)
     = Inl (Wrapped ''failed to scrape NAB accounts: '' (EngineError ''net::ERR_NAME_NOT_RESOLVED''))
   \<and> Wrapped ''failed to scrape NAB accounts: '' (EngineError ''net::ERR_NAME_NOT_RESOLVED'')
       \<noteq> ErrAuthenticationFailed
   \<and> Wrapped ''failed to scrape NAB accounts: '' (EngineError ''net::ERR_NAME_NOT_RESOLVED'')
       \<noteq> ErrServiceUnavailable
   \<and> Wrapped ''failed to scrape NAB accounts: '' (EngineError ''net::ERR_NAME_NOT_RESOLVED'')
       \<noteq> ErrAccountNotFound
   \<and> fst (handler_GetAccount (NewNABClient deadEngine sampleConfig) 0 ''12345678''
            \<lparr>client = startWorld, calls = []\<rparr>)
       = ErrorResponse 500 ''INTERNAL_ERROR''"
  by (simp add: dead_GetAccounts handler_GetAccount_def GetAccountDetails_def callGetAccounts_def
      NewNABClient_def ErrorTypeInternalError_def)

end
